theory Spec2Isabelle
  imports Complex_Main
begin

section \<open>Combined-label packing (train\_models.py, dataset module)\<close>

text \<open>
  \<^verbatim>\<open>train_models.py\<close>, line 91:
  \<^verbatim>\<open>pred = torch.max(age_pred, 1)[1] + 3*torch.max(gender_pred, 1)[1] + 6*torch.max(mask_pred, 1)[1]\<close>
  The three operands are integer tensors holding one class index per sample of the
  batch; the arithmetic is elementwise. \<open>make_real_class\<close> is the computation on one
  sample, \<open>make_real_class_batch\<close> the one on the batch. Class indices are far below the
  range of a 64-bit integer, so they are modelled as \<open>int\<close>.
\<close>

definition make_real_class :: "int \<Rightarrow> int \<Rightarrow> int \<Rightarrow> int" where
  "make_real_class age gender mask' = age + 3 * gender + 6 * mask'"

definition make_real_class_batch :: "int list \<Rightarrow> int list \<Rightarrow> int list \<Rightarrow> int list" where
  "make_real_class_batch ages genders masks =
     map (\<lambda>(age, gender, mask'). make_real_class age gender mask') (zip ages (zip genders masks))"

text \<open>
  Modelled from the spec: \<^verbatim>\<open>MaskBaseDataset.decode_multi_class\<close> lives in the dataset
  module, which is not among the source files; only its callers (\<^verbatim>\<open>get_labels\<close>,
  \<^verbatim>\<open>grid_image\<close>) are. The spec describes it as a fixed-radix, mask-major decomposition
  of the combined label by integer division and modulo, returning (mask, gender, age) with
  mask and age in three buckets and gender in two.
\<close>

definition decode_multi_class :: "int \<Rightarrow> int \<times> int \<times> int" where
  "decode_multi_class multi_class_label =
     ((multi_class_label div 6) mod 3, (multi_class_label div 3) mod 2, multi_class_label mod 3)"

text \<open>The spec's \<open>compose\<close> takes the axes in the order (mask, gender, age).\<close>

definition compose :: "int \<times> int \<times> int \<Rightarrow> int" where
  "compose t = (case t of (mask', gender, age) \<Rightarrow> make_real_class age gender mask')"

definition valid_triple :: "int \<times> int \<times> int \<Rightarrow> bool" where
  "valid_triple t = (case t of (mask', gender, age) \<Rightarrow>
     mask' \<in> {0, 1, 2} \<and> gender \<in> {0, 1} \<and> age \<in> {0, 1, 2})"

section \<open>Errors and float values\<close>

text \<open>
  The scripts handle no exception: whatever is raised ends the run. Every raise the model
  needs is a value of \<open>pyerror\<close>, and a function that can raise returns
  \<open>pyerror + 'a\<close>.
\<close>

datatype pyerror =
    NameError string
  | UnboundLocalError string
  | ZeroDivisionError
  | RuntimeError
  | IndexError
  | ValueError
  | AssertionError

text \<open>
  Float tensors and Python floats. A finite value is idealised as a real number (no
  rounding); the IEEE special values that the framework produces instead of raising are
  kept: the two infinities and NaN.
\<close>

datatype fval = Fin real | PosInf | NegInf | NaN

fun fadd :: "fval \<Rightarrow> fval \<Rightarrow> fval" where
  "fadd (Fin a) (Fin b) = Fin (a + b)"
| "fadd NaN y = NaN"
| "fadd x NaN = NaN"
| "fadd PosInf NegInf = NaN"
| "fadd NegInf PosInf = NaN"
| "fadd PosInf y = PosInf"
| "fadd x PosInf = PosInf"
| "fadd NegInf y = NegInf"
| "fadd x NegInf = NegInf"

fun fsgn :: "fval \<Rightarrow> real" where
  "fsgn (Fin a) = sgn a"
| "fsgn PosInf = 1"
| "fsgn NegInf = - 1"
| "fsgn NaN = 0"

fun fmul :: "fval \<Rightarrow> fval \<Rightarrow> fval" where
  "fmul (Fin a) (Fin b) = Fin (a * b)"
| "fmul NaN y = NaN"
| "fmul x NaN = NaN"
| "fmul x y =
     (if fsgn x * fsgn y = 0 then NaN else if 0 < fsgn x * fsgn y then PosInf else NegInf)"

text \<open>
  The logits are a \<^verbatim>\<open>float32\<close> tensor: a result whose magnitude reaches
  \<open>float_overflow\<close>, half a unit in the last place above the largest finite
  \<^verbatim>\<open>float32\<close> value, is an infinity. Elementwise tensor subtraction of finite values and
  tensor division follow: a zero divisor raises nothing, \<open>0 / 0\<close> and \<open>inf / inf\<close> are
  NaN, a finite value over an infinity is zero.
\<close>

definition float_overflow :: real where
  "float_overflow = 2 ^ 128 - 2 ^ 103"

definition to_float :: "real \<Rightarrow> fval" where
  "to_float x =
     (if float_overflow \<le> x then PosInf else if x \<le> - float_overflow then NegInf else Fin x)"

definition fsub :: "real \<Rightarrow> real \<Rightarrow> fval" where
  "fsub a b = to_float (a - b)"

fun fdiv :: "fval \<Rightarrow> fval \<Rightarrow> fval" where
  "fdiv (Fin a) (Fin b) =
     (if b \<noteq> 0 then to_float (a / b) else if a = 0 then NaN
      else if 0 < a then PosInf else NegInf)"
| "fdiv (Fin a) PosInf = Fin 0"
| "fdiv (Fin a) NegInf = Fin 0"
| "fdiv PosInf (Fin b) = (if 0 \<le> b then PosInf else NegInf)"
| "fdiv NegInf (Fin b) = (if 0 \<le> b then NegInf else PosInf)"
| "fdiv NaN y = NaN"
| "fdiv x NaN = NaN"
| "fdiv x y = NaN"

text \<open>Division of a float by a non-zero finite number \<open>d\<close>.\<close>

fun fdiv_real :: "fval \<Rightarrow> real \<Rightarrow> fval" where
  "fdiv_real (Fin a) d = Fin (a / d)"
| "fdiv_real PosInf d = (if 0 < d then PosInf else NegInf)"
| "fdiv_real NegInf d = (if 0 < d then NegInf else PosInf)"
| "fdiv_real NaN d = NaN"

text \<open>\<^verbatim>\<open>torch.sum\<close> over a slice, accumulated from zero.\<close>

definition fsum :: "fval list \<Rightarrow> fval" where
  "fsum xs = foldl fadd (Fin 0) xs"

section \<open>The joint loss of the age variant (train\_age.py, lines 185--197)\<close>

text \<open>
  \<open>outs\<close> is the batch of logits, one row of per-class logits per sample; the logits
  are finite. \<^verbatim>\<open>torch.min(outs)\<close> and \<^verbatim>\<open>torch.max(outs)\<close> reduce over the whole
  tensor, and raise on a tensor with no element.
\<close>

definition torch_min :: "real list list \<Rightarrow> pyerror + real" where
  "torch_min t = (case concat t of [] \<Rightarrow> Inl RuntimeError | x # xs \<Rightarrow> Inr (fold min xs x))"

definition torch_max :: "real list list \<Rightarrow> pyerror + real" where
  "torch_max t = (case concat t of [] \<Rightarrow> Inl RuntimeError | x # xs \<Rightarrow> Inr (fold max xs x))"

text \<open>
  Line 189:
  \<^verbatim>\<open>outs_normal = (outs - torch.min(outs)) / (torch.max(outs) - torch.min(outs))\<close>
\<close>

definition outs_normal :: "real list list \<Rightarrow> pyerror + fval list list" where
  "outs_normal outs =
     (case torch_min outs of
        Inl e \<Rightarrow> Inl e
      | Inr mn \<Rightarrow>
          (case torch_max outs of
             Inl e \<Rightarrow> Inl e
           | Inr mx \<Rightarrow> Inr (map (map (\<lambda>v. fdiv (fsub v mn) (fsub mx mn))) outs)))"

text \<open>
  Line 190:
  \<^verbatim>\<open>final_outs = torch.cat([torch.sum(outs_normal[:,:5], dim = 1, keepdim = True),
      torch.sum(outs_normal[:,5:11], dim = 1, keepdim = True),
      outs_normal[:,-1].view(-1,1)], dim = 1)\<close>
  A slice \<^verbatim>\<open>a:b\<close> of a row is \<open>drop a (take b row)\<close>; the index \<^verbatim>\<open>-1\<close> is the
  last column and raises on a tensor with no column.
\<close>

definition final_outs_row :: "fval list \<Rightarrow> fval list" where
  "final_outs_row r = [fsum (take 5 r), fsum (drop 5 (take 11 r)), last r]"

definition final_outs :: "fval list list \<Rightarrow> pyerror + fval list list" where
  "final_outs on = (if [] \<in> set on then Inl IndexError else Inr (map final_outs_row on))"

text \<open>
  Lines 187--197. \<open>criterion\<close> is \<^verbatim>\<open>create_criterion(args.criterion)\<close> of the loss
  module and \<open>cross_entropy weights\<close> is the framework's
  \<^verbatim>\<open>nn.CrossEntropyLoss(weight = weights)\<close>; both are taken as parameters.
\<close>

definition joint_loss ::
  "(real list list \<Rightarrow> int list \<Rightarrow> fval) \<Rightarrow> (real list \<Rightarrow> fval list list \<Rightarrow> int list \<Rightarrow> fval)
     \<Rightarrow> real list list \<Rightarrow> int list \<Rightarrow> int list \<Rightarrow> pyerror + fval" where
  "joint_loss criterion cross_entropy outs labels org_labels =
     (let age_loss = criterion outs labels in
      case outs_normal outs of
        Inl e \<Rightarrow> Inl e
      | Inr on \<Rightarrow>
          (case final_outs on of
             Inl e \<Rightarrow> Inl e
           | Inr fo \<Rightarrow>
               (let weights = [1.5, 1.5, 7];
                    original_loss = cross_entropy weights fo org_labels
                in Inr (fadd (fmul (Fin 0.5) age_loss) original_loss))))"

section \<open>The batch loop of one training epoch (train\_age.py, lines 170--236)\<close>

text \<open>
  One element of the train loader as the loop body sees it: the logits
  \<^verbatim>\<open>outs = model(inputs)\<close> that the model returned for the batch, the 3-class labels
  \<^verbatim>\<open>org_labels\<close> and the 11-class labels \<^verbatim>\<open>labels\<close>.
\<close>

type_synonym batch = "real list list \<times> int list \<times> int list"

text \<open>
  The state of the loop that the loss flows through: the accumulator \<^verbatim>\<open>loss_value\<close>,
  the losses on which \<^verbatim>\<open>loss.backward()\<close> was called, and the values of
  \<^verbatim>\<open>train_loss\<close> that were printed and logged, both in order. The accuracy and F1
  accumulators are reset with \<^verbatim>\<open>loss_value\<close> and feed neither of them.
\<close>

record train_state =
  loss_value :: fval
  backward :: "fval list"
  logged :: "fval list"

text \<open>
  \<^verbatim>\<open>for idx, train_batch in enumerate(train_loader)\<close>: line 197 builds the loss, line
  199 backpropagates it, line 202 adds \<^verbatim>\<open>loss.item() / 2\<close> to the accumulator, line 208
  tests \<^verbatim>\<open>(idx + 1) % args.log_interval == 0\<close> (Python's \<^verbatim>\<open>%\<close> raises on a zero
  modulus and takes the sign of the modulus otherwise, as \<open>mod\<close> on \<open>int\<close> does), line
  209 computes \<^verbatim>\<open>train_loss = loss_value / args.log_interval\<close>, line 232 resets.
\<close>

fun train_batches ::
  "(real list list \<Rightarrow> int list \<Rightarrow> fval) \<Rightarrow> (real list \<Rightarrow> fval list list \<Rightarrow> int list \<Rightarrow> fval)
     \<Rightarrow> int \<Rightarrow> nat \<Rightarrow> batch list \<Rightarrow> train_state \<Rightarrow> pyerror + train_state" where
  "train_batches criterion cross_entropy log_interval idx [] st = Inr st"
| "train_batches criterion cross_entropy log_interval idx ((outs, org_labels, labels) # rest) st =
     (case joint_loss criterion cross_entropy outs labels org_labels of
        Inl e \<Rightarrow> Inl e
      | Inr loss \<Rightarrow>
          (let st1 = st\<lparr>backward := backward st @ [loss],
                         loss_value := fadd (loss_value st) (fdiv_real loss 2)\<rparr>
           in if log_interval = 0 then Inl ZeroDivisionError
              else if (int idx + 1) mod log_interval = 0 then
                train_batches criterion cross_entropy log_interval (Suc idx) rest
                  (st1\<lparr>logged := logged st1 @ [fdiv_real (loss_value st1) (real_of_int log_interval)],
                       loss_value := Fin 0\<rparr>)
              else train_batches criterion cross_entropy log_interval (Suc idx) rest st1))"

text \<open>Lines 170--177: the accumulator starts at zero in every epoch.\<close>

definition train_epoch ::
  "(real list list \<Rightarrow> int list \<Rightarrow> fval) \<Rightarrow> (real list \<Rightarrow> fval list list \<Rightarrow> int list \<Rightarrow> fval)
     \<Rightarrow> int \<Rightarrow> batch list \<Rightarrow> pyerror + train_state" where
  "train_epoch criterion cross_entropy log_interval train_loader =
     train_batches criterion cross_entropy log_interval 0 train_loader
       \<lparr>loss_value = Fin 0, backward = [], logged = []\<rparr>"

text \<open>
  What the properties of the loop are stated with: a batch of logits with at least one
  row and no empty row, the consecutive full windows of a list, and the mean of a window.
\<close>

definition well_shaped :: "real list list \<Rightarrow> bool" where
  "well_shaped outs = (outs \<noteq> [] \<and> [] \<notin> set outs)"

fun full_windows :: "nat \<Rightarrow> 'a list \<Rightarrow> 'a list list" where
  "full_windows n xs =
     (if n = 0 \<or> length xs < n then [] else take n xs # full_windows n (drop n xs))"

declare full_windows.simps [simp del]

definition fmean :: "fval list \<Rightarrow> fval" where
  "fmean w = fdiv_real (fsum w) (real (length w))"

section \<open>The validation pass (train\_age.py, lines 129--136 and 251--292)\<close>

text \<open>
  \<^verbatim>\<open>DataLoader(val_set, batch_size=args.valid_batch_size, shuffle=False, drop_last=True)\<close>:
  the samples in order, in batches of the given size; \<^verbatim>\<open>drop_last=True\<close> drops the
  last batch when it is not full. The framework refuses a batch size that is not positive.
\<close>

definition data_loader :: "int \<Rightarrow> 'a list \<Rightarrow> pyerror + 'a list list" where
  "data_loader batch_size dataset =
     (if batch_size \<le> 0 then Inl ValueError else Inr (full_windows (nat batch_size) dataset))"

text \<open>
  \<^verbatim>\<open>grid_image(np_images, gts, preds, n, shuffle)\<close>: the function starts with
  \<^verbatim>\<open>batch_size = np_images.shape[0]\<close> and \<^verbatim>\<open>assert n <= batch_size\<close>; the plotting that
  follows is taken to return.
\<close>

definition grid_image :: "'a list \<Rightarrow> int \<Rightarrow> pyerror + unit" where
  "grid_image np_images n =
     (if n \<le> int (length np_images) then Inr () else Inl AssertionError)"

text \<open>
  A validation sample is the pair of its label and of the class the model predicts for it
  (\<^verbatim>\<open>preds = torch.argmax(outs, dim=-1)\<close>). \<open>f1_score\<close> is the library's macro-F1 of a
  batch, a parameter. The first batch of the pass, and no other, is drawn with
  \<^verbatim>\<open>grid_image\<close> (\<^verbatim>\<open>if figure is None\<close>), with \<open>n = 16\<close> in \<^verbatim>\<open>train_age.py\<close>
  (line 282) and \<open>n = 10\<close> in \<^verbatim>\<open>train_5fold.py\<close> (line 268). The pass returns
  \<^verbatim>\<open>score\<close> (line 286) and \<^verbatim>\<open>val_acc\<close> (line 291); with no batch,
  \<^verbatim>\<open>score / len(val_loader)\<close> divides the integer 0 by 0 and raises.
\<close>

definition acc_item :: "(int \<times> int) list \<Rightarrow> int" where
  "acc_item val_batch = int (length (filter (\<lambda>(label, pred). label = pred) val_batch))"

definition validate ::
  "(int list \<Rightarrow> int list \<Rightarrow> real) \<Rightarrow> int \<Rightarrow> int \<Rightarrow> (int \<times> int) list \<Rightarrow> pyerror + real \<times> real" where
  "validate f1_score n valid_batch_size val_set =
     (case data_loader valid_batch_size val_set of
        Inl e \<Rightarrow> Inl e
      | Inr val_loader \<Rightarrow>
          (case val_loader of
             [] \<Rightarrow> Inl ZeroDivisionError
           | val_batch # rest \<Rightarrow>
               (case grid_image val_batch n of
                  Inl e \<Rightarrow> Inl e
                | Inr figure \<Rightarrow>
                    (let val_acc_items = map acc_item val_loader;
                         score = sum_list (map (\<lambda>b. f1_score (map fst b) (map snd b)) val_loader)
                     in Inr (score / real (length val_loader),
                             real_of_int (sum_list val_acc_items) / real (length val_set))))))"

text \<open>The samples that reach the model in a validation pass.\<close>

definition scored_samples :: "int \<Rightarrow> 'a list \<Rightarrow> pyerror + 'a list" where
  "scored_samples valid_batch_size val_set =
     (case data_loader valid_batch_size val_set of
        Inl e \<Rightarrow> Inl e
      | Inr val_loader \<Rightarrow> Inr (concat val_loader))"

section \<open>Checkpoints at the end of an epoch (train\_age.py, train\_5fold.py)\<close>

text \<open>
  The files a run writes below its save directory: \<^verbatim>\<open>best.pth\<close>, \<^verbatim>\<open>last.pth\<close> and,
  in \<^verbatim>\<open>train_5fold.py\<close> only, one file per fold and epoch whose name carries the fold,
  the epoch, the F1 and the loss.
\<close>

datatype ckpt_file = BestPth | LastPth | EpochPt nat nat real real

text \<open>The validation results of one epoch: \<^verbatim>\<open>score\<close> or \<^verbatim>\<open>val_f1\<close>, \<^verbatim>\<open>val_loss\<close>, \<^verbatim>\<open>val_acc\<close>.\<close>

record epoch_metrics =
  val_f1 :: real
  val_loss :: real
  val_acc :: real

text \<open>
  The three trackers, the files on disk and the calls of \<^verbatim>\<open>torch.save\<close> in order. A
  file holds the weights the model had when it was saved; \<open>'t\<close> names that moment (the
  epoch, or the fold and the epoch).
\<close>

record 't run_state =
  best_val_acc :: real
  best_val_f1 :: real
  best_val_loss :: fval
  disk :: "ckpt_file \<rightharpoonup> 't"
  saves :: "(ckpt_file \<times> 't) list"

definition torch_save :: "ckpt_file \<Rightarrow> 't \<Rightarrow> 't run_state \<Rightarrow> 't run_state" where
  "torch_save file tag st = st\<lparr>disk := (disk st)(file \<mapsto> tag), saves := saves st @ [(file, tag)]\<rparr>"

text \<open>Python's \<^verbatim>\<open>min(a, b)\<close> on floats returns \<open>a\<close> unless \<open>b < a\<close>.\<close>

fun fless :: "fval \<Rightarrow> fval \<Rightarrow> bool" where
  "fless (Fin a) (Fin b) = (a < b)"
| "fless NaN y = False"
| "fless x NaN = False"
| "fless x NegInf = False"
| "fless PosInf y = False"
| "fless NegInf y = True"
| "fless x PosInf = True"

definition py_min :: "fval \<Rightarrow> fval \<Rightarrow> fval" where
  "py_min a b = (if fless b a then b else a)"

text \<open>
  Lines 293--294 of \<^verbatim>\<open>train_age.py\<close>, lines 274--275 of \<^verbatim>\<open>train_5fold.py\<close>:
  \<^verbatim>\<open>best_val_loss = min(best_val_loss, val_loss)\<close>,
  \<^verbatim>\<open>best_val_acc = max(best_val_acc, val_acc)\<close>.
\<close>

definition update_trackers :: "epoch_metrics \<Rightarrow> 't run_state \<Rightarrow> 't run_state" where
  "update_trackers m st =
     st\<lparr>best_val_loss := py_min (best_val_loss st) (Fin (val_loss m)),
        best_val_acc := max (best_val_acc st) (val_acc m)\<rparr>"

text \<open>
  Lines 295--299 of \<^verbatim>\<open>train_age.py\<close> and, with \<^verbatim>\<open>val_f1\<close> for \<^verbatim>\<open>score\<close>, lines
  277--281 of \<^verbatim>\<open>train_5fold.py\<close>:
  \<^verbatim>\<open>if score > best_val_f1:
      torch.save(model.module.state_dict(), f"{save_dir}/best.pth")
      best_val_f1 = score
  torch.save(model.module.state_dict(), f"{save_dir}/last.pth")\<close>
\<close>

definition checkpoint :: "'t \<Rightarrow> real \<Rightarrow> 't run_state \<Rightarrow> 't run_state" where
  "checkpoint tag score st =
     torch_save LastPth tag
       (if score > best_val_f1 st then (torch_save BestPth tag st)\<lparr>best_val_f1 := score\<rparr> else st)"

definition age_epoch_end :: "nat \<Rightarrow> epoch_metrics \<Rightarrow> nat run_state \<Rightarrow> nat run_state" where
  "age_epoch_end epoch m st = checkpoint epoch (val_f1 m) (update_trackers m st)"

text \<open>Line 276 of \<^verbatim>\<open>train_5fold.py\<close> saves the per-epoch file before the two others.\<close>

definition fold_epoch_end ::
  "nat \<Rightarrow> nat \<Rightarrow> epoch_metrics \<Rightarrow> (nat \<times> nat) run_state \<Rightarrow> (nat \<times> nat) run_state" where
  "fold_epoch_end fold' epoch m st =
     checkpoint (fold', epoch) (val_f1 m)
       (torch_save (EpochPt fold' epoch (val_f1 m) (val_loss m)) (fold', epoch) (update_trackers m st))"

text \<open>
  \<^verbatim>\<open>for epoch in range(args.epochs)\<close>, over the validation results of the epochs in
  order; \<open>body\<close> is the end of an epoch.
\<close>

fun epoch_loop ::
  "(nat \<Rightarrow> epoch_metrics \<Rightarrow> 't run_state \<Rightarrow> 't run_state) \<Rightarrow> nat \<Rightarrow> epoch_metrics list
     \<Rightarrow> 't run_state \<Rightarrow> 't run_state" where
  "epoch_loop body epoch [] st = st"
| "epoch_loop body epoch (m # ms) st = epoch_loop body (Suc epoch) ms (body epoch m st)"

text \<open>Lines 164--166 and 181--183: the trackers before the first epoch.\<close>

definition init_trackers :: "'t run_state \<Rightarrow> 't run_state" where
  "init_trackers st = st\<lparr>best_val_acc := 0, best_val_f1 := 0, best_val_loss := PosInf\<rparr>"

definition fresh_run :: "'t run_state" where
  "fresh_run = \<lparr>best_val_acc = 0, best_val_f1 = 0, best_val_loss = PosInf,
                 disk = Map.empty, saves = []\<rparr>"

text \<open>\<^verbatim>\<open>train_age.py\<close>: one epoch loop in a save directory of its own.\<close>

definition train_age :: "epoch_metrics list \<Rightarrow> nat run_state" where
  "train_age ms = epoch_loop age_epoch_end 0 ms (init_trackers fresh_run)"

text \<open>
  \<^verbatim>\<open>train_5fold.py\<close>: \<^verbatim>\<open>save_dir\<close> is computed once, before
  \<^verbatim>\<open>for fold in range(5)\<close>; lines 181--183 and the epoch loop stand inside the fold
  loop. The argument lists the validation results of each fold's epochs.
\<close>

fun fold_loop ::
  "nat \<Rightarrow> epoch_metrics list list \<Rightarrow> (nat \<times> nat) run_state \<Rightarrow> (nat \<times> nat) run_state" where
  "fold_loop fold' [] st = st"
| "fold_loop fold' (ms # rest) st =
     fold_loop (Suc fold') rest (epoch_loop (fold_epoch_end fold') 0 ms (init_trackers st))"

definition train_5fold :: "epoch_metrics list list \<Rightarrow> (nat \<times> nat) run_state" where
  "train_5fold folds = fold_loop 0 (take 5 folds) fresh_run"

text \<open>
  Epoch \<open>e\<close> of an epoch loop improves on the loop so far: its F1 is positive
  (\<^verbatim>\<open>best_val_f1\<close> is 0 before the first epoch) and strictly greater than the F1 of
  every earlier epoch of the same loop.
\<close>

definition improves :: "epoch_metrics list \<Rightarrow> nat \<Rightarrow> bool" where
  "improves ms e =
     (e < length ms \<and> 0 < val_f1 (ms ! e) \<and> (\<forall>j<e. val_f1 (ms ! j) < val_f1 (ms ! e)))"

text \<open>
  Epoch \<open>e\<close> is the best epoch of a fold: its F1 is positive, no epoch of the fold has a
  higher F1, and every earlier epoch has a lower one.
\<close>

definition fold_best :: "epoch_metrics list \<Rightarrow> nat \<Rightarrow> bool" where
  "fold_best ms e =
     (e < length ms \<and> 0 < val_f1 (ms ! e)
      \<and> (\<forall>j<length ms. val_f1 (ms ! j) \<le> val_f1 (ms ! e))
      \<and> (\<forall>j<e. val_f1 (ms ! j) < val_f1 (ms ! e)))"

section \<open>The files of the inference script (final/test.py)\<close>

text \<open>
  \<^verbatim>\<open>os.path.join\<close> of two components on a POSIX system: an absolute second component
  replaces the first, otherwise the two are joined by one separator.
\<close>

definition os_path_join :: "string \<Rightarrow> string \<Rightarrow> string" where
  "os_path_join a b =
     (if b \<noteq> [] \<and> hd b = CHR ''/'' then b
      else if a = [] \<or> last a = CHR ''/'' then a @ b
      else a @ ''/'' @ b)"

definition test_dir :: string where
  "test_dir = ''/opt/ml/input/data/eval''"

text \<open>
  The file accesses of the main block, in order: line 45
  (\<^verbatim>\<open>pd.read_csv(os.path.join(test_dir, 'info.csv'))\<close>), line 76
  (\<^verbatim>\<open>torch.load('/opt/ml/submissions/submission_effb5age.csv')\<close>) and line 92
  (\<^verbatim>\<open>submission.to_csv(os.path.join('/opt/ml/submissions', 'submission_effb5age.csv'), index=False)\<close>).
\<close>

datatype file_access = ReadCsv string | TorchLoad string | ToCsv string

definition test_main_accesses :: "file_access list" where
  "test_main_accesses =
     [ReadCsv (os_path_join test_dir ''info.csv''),
      TorchLoad ''/opt/ml/submissions/submission_effb5age.csv'',
      ToCsv (os_path_join ''/opt/ml/submissions'' ''submission_effb5age.csv'')]"

definition has_suffix :: "string \<Rightarrow> string \<Rightarrow> bool" where
  "has_suffix suf p = (length suf \<le> length p \<and> drop (length p - length suf) p = suf)"

section \<open>Name binding in the validation loop of train\_models.py (lines 140--155)\<close>

text \<open>
  A name of a function body is a local variable when the body assigns it anywhere (or it
  is a parameter), and is looked up in the module's globals and then in the builtins
  otherwise. Reading a local variable that is not bound yet raises
  \<^verbatim>\<open>UnboundLocalError\<close>, a subclass of \<^verbatim>\<open>NameError\<close>; reading any other name that
  neither the module nor the builtins bind raises \<^verbatim>\<open>NameError\<close>.

  \<open>train_models_locals\<close> lists the parameter of \<^verbatim>\<open>train_models\<close> and the targets of
  the assignments, augmented assignments and \<^verbatim>\<open>for\<close> statements of its body, in the
  order of the source; \<open>module_globals\<close> lists the names that the imports, the
  \<^verbatim>\<open>def\<close> and the main block have bound when line 179 calls the function.
\<close>

definition train_models_locals :: "string list" where
  "train_models_locals =
     [''args'', ''now'', ''train_dataloader'', ''val_dataloader'', ''device'', ''criterion'',
      ''age_model'', ''gender_model'', ''mask_model'',
      ''age_optimizer'', ''gender_optimizer'', ''mask_optimizer'',
      ''max_val_acc'', ''epoch'',
      ''total_acc'', ''total_age_acc'', ''total_mask_acc'', ''total_gender_acc'',
      ''total_age_loss'', ''total_mask_loss'', ''total_gender_loss'',
      ''batch_iter'', ''batch'', ''img'', ''label'', ''gender'', ''age'', ''mask'',
      ''age_pred'', ''gender_pred'', ''mask_pred'',
      ''age_loss'', ''gender_loss'', ''mask_loss'',
      ''age_acc'', ''gender_acc'', ''mask_acc'', ''pred'', ''acc'',
      ''avg_age_loss'', ''avg_mask_loss'', ''avg_gender_loss'',
      ''avg_acc'', ''avg_age_acc'', ''avg_mask_acc'', ''avg_gender_acc'',
      ''total_val_acc'', ''val_iter'', ''val_batch'', ''acc_out'',
      ''total_val_loss'', ''avg_val_loss'', ''avg_val_acc'']"

definition module_globals :: "string list" where
  "module_globals =
     [''np'', ''plt'', ''torch'', ''nn'', ''optim'', ''F'', ''getDataloader'', ''torchvision'',
      ''get_model'', ''argparse'', ''timezone'', ''dt'', ''train_models'', ''parser'', ''args'']"

definition load_name :: "string set \<Rightarrow> string set \<Rightarrow> string \<Rightarrow> pyerror + unit" where
  "load_name builtins bound n =
     (if n \<in> set train_models_locals then
        (if n \<in> bound then Inr () else Inl (UnboundLocalError n))
      else if n \<in> set module_globals \<or> n \<in> builtins then Inr ()
      else Inl (NameError n))"

fun load_names :: "string set \<Rightarrow> string set \<Rightarrow> string list \<Rightarrow> pyerror + unit" where
  "load_names builtins bound [] = Inr ()"
| "load_names builtins bound (n # ns) =
     (case load_name builtins bound n of
        Inl e \<Rightarrow> Inl e
      | Inr u \<Rightarrow> load_names builtins bound ns)"

text \<open>
  A statement, as far as names go: the names it reads, in the order in which Python
  evaluates them, and then the names it binds. The calls it makes are taken to return.
\<close>

type_synonym stmt = "string list \<times> string list"

definition exec_stmt :: "string set \<Rightarrow> stmt \<Rightarrow> string set \<Rightarrow> pyerror + string set" where
  "exec_stmt builtins s bound =
     (case load_names builtins bound (fst s) of
        Inl e \<Rightarrow> Inl e
      | Inr u \<Rightarrow> Inr (bound \<union> set (snd s)))"

fun exec_block :: "string set \<Rightarrow> stmt list \<Rightarrow> string set \<Rightarrow> pyerror + string set" where
  "exec_block builtins [] bound = Inr bound"
| "exec_block builtins (s # ss) bound =
     (case exec_stmt builtins s bound of
        Inl e \<Rightarrow> Inl e
      | Inr bound' \<Rightarrow> exec_block builtins ss bound')"

text \<open>Lines 141--155, the body of the loop over \<^verbatim>\<open>enumerate(val_dataloader)\<close>.\<close>

definition val_body :: "stmt list" where
  "val_body =
     [([''val_batch''], [''img'', ''label'', ''gender'', ''age'', ''mask'']),
      ([''img'', ''device''], [''img'']),
      ([''label'', ''device''], [''label'']),
      ([''gender'', ''device''], [''gender'']),
      ([''age'', ''device''], [''age'']),
      ([''mask'', ''device''], [''mask'']),
      ([''age_model'', ''img''], [''age_pred'']),
      ([''mask_model'', ''img''], [''mask_pred'']),
      ([''gender_model'', ''img''], [''gender_pred'']),
      ([''torch'', ''torch'', ''y_pred'', ''val_batch_out'', ''len'', ''val_batch_out''], [''acc_out'']),
      ([''print'', ''epoch'', ''val_iter'', ''acc_out'', ''loss_out''], []),
      ([''total_val_loss'', ''loss_out''], [''total_val_loss'']),
      ([''total_val_acc'', ''acc_out''], [''total_val_acc''])]"

text \<open>
  Line 140, \<^verbatim>\<open>for val_iter, val_batch in enumerate(val_dataloader)\<close>, on a loader of
  \<open>n\<close> batches: the header is evaluated once, every iteration binds the two targets
  and runs the body.
\<close>

fun val_iterations :: "string set \<Rightarrow> nat \<Rightarrow> string set \<Rightarrow> pyerror + string set" where
  "val_iterations builtins 0 bound = Inr bound"
| "val_iterations builtins (Suc n) bound =
     (case exec_block builtins val_body (bound \<union> {''val_iter'', ''val_batch''}) of
        Inl e \<Rightarrow> Inl e
      | Inr bound' \<Rightarrow> val_iterations builtins n bound')"

definition val_loop :: "string set \<Rightarrow> nat \<Rightarrow> string set \<Rightarrow> pyerror + string set" where
  "val_loop builtins n bound =
     (case load_names builtins bound [''enumerate'', ''val_dataloader''] of
        Inl e \<Rightarrow> Inl e
      | Inr u \<Rightarrow> val_iterations builtins n bound)"

definition is_name_error :: "pyerror \<Rightarrow> bool" where
  "is_name_error e = (case e of NameError n \<Rightarrow> True | UnboundLocalError n \<Rightarrow> True | _ \<Rightarrow> False)"

section \<open>Label packing: round trips\<close>

lemma decode_multi_class_valid:
  "valid_triple (decode_multi_class L)"
proof -
  have m: "(L div 6) mod 3 \<in> {0, 1, 2}"
    using pos_mod_sign [of 3 "L div 6"] pos_mod_bound [of 3 "L div 6"] by auto
  have g: "(L div 3) mod 2 \<in> {0, 1}"
    using pos_mod_sign [of 2 "L div 3"] pos_mod_bound [of 2 "L div 3"] by auto
  have a: "L mod 3 \<in> {0, 1, 2}"
    using pos_mod_sign [of 3 L] pos_mod_bound [of 3 L] by auto
  from m g a show ?thesis
    unfolding valid_triple_def decode_multi_class_def by simp
qed

lemma compose_range:
  assumes "valid_triple (mask', gender, age)"
  shows "0 \<le> compose (mask', gender, age) \<and> compose (mask', gender, age) \<le> 17"
  using assms unfolding valid_triple_def compose_def make_real_class_def by auto

lemma radix_recompose:
  fixes L :: int
  shows "L mod 3 + 3 * ((L div 3) mod 2) + 6 * (L div 6) = L"
proof -
  have d: "L div 6 = (L div 3) div 2"
    using zdiv_zmult2_eq [of 3 L 2] by simp
  have "(L div 3) mod 2 + 2 * ((L div 3) div 2) = L div 3"
    by simp
  then have "3 * ((L div 3) mod 2) + 6 * ((L div 3) div 2) = 3 * (L div 3)"
    by linarith
  moreover have "L mod 3 + 3 * (L div 3) = L"
    by simp
  ultimately show ?thesis
    using d by linarith
qed

lemma compose_decode:
  assumes "0 \<le> L" and "L \<le> 17"
  shows "compose (decode_multi_class L) = L"
proof -
  have "L div 6 \<le> 17 div 6"
    using assms(2) by (intro zdiv_mono1) simp_all
  then have "L div 6 < 3" by simp
  moreover have "0 \<le> L div 6"
    using assms(1) by (simp add: pos_imp_zdiv_nonneg_iff)
  ultimately have m: "(L div 6) mod 3 = L div 6" by simp
  have "L mod 3 + 3 * ((L div 3) mod 2) + 6 * ((L div 6) mod 3) = L"
    by (simp only: m radix_recompose)
  then show ?thesis
    unfolding compose_def decode_multi_class_def make_real_class_def
    by (simp only: prod.case)
qed

lemma radix_decompose:
  fixes m g a :: int
  assumes "m = 0 \<or> m = 1 \<or> m = 2" and "g = 0 \<or> g = 1" and "a = 0 \<or> a = 1 \<or> a = 2"
  shows "((a + 3 * g + 6 * m) div 6) mod 3 = m
    \<and> ((a + 3 * g + 6 * m) div 3) mod 2 = g
    \<and> (a + 3 * g + 6 * m) mod 3 = a"
  using assms by (elim disjE) simp_all

lemma decode_compose:
  assumes "valid_triple (mask', gender, age)"
  shows "decode_multi_class (compose (mask', gender, age)) = (mask', gender, age)"
proof -
  from assms have "mask' = 0 \<or> mask' = 1 \<or> mask' = 2"
    and "gender = 0 \<or> gender = 1" and "age = 0 \<or> age = 1 \<or> age = 2"
    unfolding valid_triple_def by auto
  from radix_decompose [OF this] show ?thesis
    unfolding compose_def make_real_class_def decode_multi_class_def by simp
qed

text \<open>
  Claim C1. The packing \<open>combined = mask*6 + gender*3 + age\<close>, which is what line 91 of
  \<^verbatim>\<open>train_models.py\<close> computes, and the division/modulo decoding are inverse to each
  other: every combined label in \<open>[0,17]\<close> decodes to an in-range triple that composes
  back to it, every in-range triple composes to a label in \<open>[0,17]\<close> that decodes back to
  the triple, so the packing is a bijection between the 18 triples and the 18 labels;
  labels 0, 6 and 17 are the triples (0,0,0), (1,0,0) and (2,1,2).
\<close>

theorem label_packing_bijection:
  "(\<forall>L. 0 \<le> L \<and> L \<le> 17 \<longrightarrow>
        valid_triple (decode_multi_class L) \<and> compose (decode_multi_class L) = L)
   \<and> (\<forall>mask' gender age. valid_triple (mask', gender, age) \<longrightarrow>
        0 \<le> compose (mask', gender, age) \<and> compose (mask', gender, age) \<le> 17
        \<and> decode_multi_class (compose (mask', gender, age)) = (mask', gender, age))
   \<and> (\<forall>mask' gender age. compose (mask', gender, age) = mask' * 6 + gender * 3 + age
        \<and> make_real_class age gender mask' = mask' * 6 + gender * 3 + age)
   \<and> make_real_class_batch ages genders masks =
        map (\<lambda>(age, gender, mask'). mask' * 6 + gender * 3 + age) (zip ages (zip genders masks))
   \<and> bij_betw compose {t. valid_triple t} {0..17}
   \<and> decode_multi_class 0 = (0, 0, 0) \<and> compose (0, 0, 0) = 0
   \<and> decode_multi_class 6 = (1, 0, 0) \<and> compose (1, 0, 0) = 6
   \<and> decode_multi_class 17 = (2, 1, 2) \<and> compose (2, 1, 2) = 17"
proof -
  have rt1: "\<forall>L. 0 \<le> L \<and> L \<le> 17 \<longrightarrow>
        valid_triple (decode_multi_class L) \<and> compose (decode_multi_class L) = L"
    using decode_multi_class_valid compose_decode by blast
  have rt2: "\<forall>mask' gender age. valid_triple (mask', gender, age) \<longrightarrow>
        0 \<le> compose (mask', gender, age) \<and> compose (mask', gender, age) \<le> 17
        \<and> decode_multi_class (compose (mask', gender, age)) = (mask', gender, age)"
    using compose_range decode_compose by blast
  have formula: "\<forall>mask' gender age. compose (mask', gender, age) = mask' * 6 + gender * 3 + age
        \<and> make_real_class age gender mask' = mask' * 6 + gender * 3 + age"
    unfolding compose_def make_real_class_def by simp
  have bij: "bij_betw compose {t. valid_triple t} {0..17}"
  proof (rule bij_betw_byWitness [where f' = decode_multi_class])
    show "\<forall>t \<in> {t. valid_triple t}. decode_multi_class (compose t) = t"
      using decode_compose by auto
    show "\<forall>L \<in> {0..17}. compose (decode_multi_class L) = L"
      using compose_decode by simp
    show "compose ` {t. valid_triple t} \<subseteq> {0..17}"
      using compose_range by auto
    show "decode_multi_class ` {0..17} \<subseteq> {t. valid_triple t}"
      using decode_multi_class_valid by auto
  qed
  have ex: "decode_multi_class 0 = (0, 0, 0)" "compose (0, 0, 0) = 0"
    "decode_multi_class 6 = (1, 0, 0)" "compose (1, 0, 0) = 6"
    "decode_multi_class 17 = (2, 1, 2)" "compose (2, 1, 2) = 17"
    unfolding compose_def make_real_class_def decode_multi_class_def by simp_all
  have batch: "make_real_class_batch ages genders masks =
        map (\<lambda>(age, gender, mask'). mask' * 6 + gender * 3 + age) (zip ages (zip genders masks))"
    unfolding make_real_class_batch_def make_real_class_def by (auto simp: algebra_simps)
  show ?thesis
    using rt1 rt2 formula batch bij ex by - (intro conjI; assumption)
qed

theorem label_packing_bijection_witness:
  "(0::int) \<le> 11 \<and> (11::int) \<le> 17
   \<and> decode_multi_class 11 = (1, 1, 2) \<and> valid_triple (1, 1, 2)
   \<and> compose (1, 1, 2) = 11 \<and> make_real_class 2 1 1 = 11"
proof -
  note p = label_packing_bijection [of "[]" "[]" "[]"]
  have r: "(0::int) \<le> 11 \<and> (11::int) \<le> 17" by simp
  from p [THEN conjunct1, rule_format, OF r]
  have a: "valid_triple (decode_multi_class 11) \<and> compose (decode_multi_class 11) = 11" .
  have d: "decode_multi_class 11 = (1, 1, 2)"
    unfolding decode_multi_class_def by simp
  from p [THEN conjunct2, THEN conjunct2, THEN conjunct1, rule_format, of 1 1 2]
  have c: "make_real_class 2 1 1 = 1 * 6 + 1 * 3 + 2" by (rule conjunct2)
  from a c r show ?thesis unfolding d by simp
qed

section \<open>Min-max normalisation\<close>

lemma fold_min_Min: "fold min xs (x::real) = Min (set (x # xs))"
  using Min.set_eq_fold [of x xs] by simp

lemma fold_max_Max: "fold max xs (x::real) = Max (set (x # xs))"
  using Max.set_eq_fold [of x xs] by simp

lemma torch_min_Min:
  assumes "concat t \<noteq> []"
  shows "torch_min t = Inr (Min (set (concat t)))"
proof -
  from assms obtain x xs where c: "concat t = x # xs" by (cases "concat t") auto
  show ?thesis unfolding torch_min_def c using fold_min_Min [of xs x] by simp
qed

lemma torch_max_Max:
  assumes "concat t \<noteq> []"
  shows "torch_max t = Inr (Max (set (concat t)))"
proof -
  from assms obtain x xs where c: "concat t = x # xs" by (cases "concat t") auto
  show ?thesis unfolding torch_max_def c using fold_max_Max [of xs x] by simp
qed

lemma outs_normal_Inr:
  assumes "concat outs \<noteq> []"
  shows "outs_normal outs =
    Inr (map (map (\<lambda>v. fdiv (fsub v (Min (set (concat outs))))
      (fsub (Max (set (concat outs))) (Min (set (concat outs)))))) outs)"
  unfolding outs_normal_def by (simp add: torch_min_Min [OF assms] torch_max_Max [OF assms])

lemma range_zero_iff:
  fixes S :: "real set"
  assumes "finite S" and "S \<noteq> {}"
  shows "Max S - Min S = 0 \<longleftrightarrow> (\<forall>v\<in>S. \<forall>w\<in>S. v = w)"
proof
  assume eq: "Max S - Min S = 0"
  show "\<forall>v\<in>S. \<forall>w\<in>S. v = w"
  proof (intro ballI)
    fix v w assume "v \<in> S" "w \<in> S"
    then have "Min S \<le> v" "v \<le> Max S" "Min S \<le> w" "w \<le> Max S"
      using assms by simp_all
    with eq show "v = w" by linarith
  qed
next
  assume all: "\<forall>v\<in>S. \<forall>w\<in>S. v = w"
  have "Max S \<in> S" "Min S \<in> S" using assms by simp_all
  with all show "Max S - Min S = 0" by simp
qed

lemma float_overflow_gt_one: "1 < float_overflow"
  unfolding float_overflow_def by simp

lemma to_float_Fin:
  assumes "- float_overflow < x" and "x < float_overflow"
  shows "to_float x = Fin x"
  using assms unfolding to_float_def by simp

lemma to_float_zero_iff: "(to_float x = Fin 0) = (x = 0)"
  using float_overflow_gt_one unfolding to_float_def by auto

lemma fsub_zero_iff: "(fsub a b = Fin 0) = (a - b = 0)"
  unfolding fsub_def by (rule to_float_zero_iff)

lemma fdiv_zero_zero: "fdiv (fsub v v) (Fin 0) = NaN"
proof -
  have "fsub v v = Fin 0" using fsub_zero_iff [of v v] by simp
  then show ?thesis by simp
qed

lemma fdiv_unit:
  assumes "mn \<le> v" and "v \<le> mx" and "mx - mn \<noteq> 0" and "mx - mn < float_overflow"
  shows "\<exists>u. fdiv (fsub v mn) (fsub mx mn) = Fin u \<and> 0 \<le> u \<and> u \<le> 1"
proof -
  have pos: "0 < mx - mn" using assms by linarith
  have n: "fsub v mn = Fin (v - mn)"
    unfolding fsub_def using assms float_overflow_gt_one by (intro to_float_Fin) linarith+
  have d: "fsub mx mn = Fin (mx - mn)"
    unfolding fsub_def using assms float_overflow_gt_one by (intro to_float_Fin) linarith+
  have q0: "0 \<le> (v - mn) / (mx - mn)" using assms pos by simp
  have q1: "(v - mn) / (mx - mn) \<le> 1" using assms pos by simp
  have "to_float ((v - mn) / (mx - mn)) = Fin ((v - mn) / (mx - mn))"
    using q0 q1 float_overflow_gt_one by (intro to_float_Fin) linarith+
  with q0 q1 assms(3) show ?thesis unfolding n d by simp
qed

lemma fdiv_overflow:
  assumes "mn \<le> v" and "float_overflow \<le> mx - mn"
  shows "fdiv (fsub v mn) (fsub mx mn) = Fin 0 \<or> fdiv (fsub v mn) (fsub mx mn) = NaN"
proof -
  have d: "fsub mx mn = PosInf"
    unfolding fsub_def to_float_def using assms(2) by simp
  have "fsub v mn = PosInf \<or> fsub v mn = Fin (v - mn)"
    unfolding fsub_def to_float_def using assms(1) float_overflow_gt_one by auto
  then show ?thesis unfolding d by auto
qed

lemma foldl_fadd_NaN: "foldl fadd NaN xs = NaN"
  by (induction xs) simp_all

lemma fadd_NaN_right: "fadd x NaN = NaN"
  by (cases x) simp_all

lemma foldl_fadd_has_NaN:
  "NaN \<in> set xs \<Longrightarrow> foldl fadd a xs = NaN"
proof (induction xs arbitrary: a)
  case Nil
  then show ?case by simp
next
  case (Cons x xs)
  show ?case
  proof (cases "x = NaN")
    case True
    then show ?thesis by (simp add: fadd_NaN_right foldl_fadd_NaN)
  next
    case False
    with Cons.prems have "NaN \<in> set xs" by simp
    from Cons.IH [OF this] show ?thesis by simp
  qed
qed

lemma fsum_has_NaN: "NaN \<in> set xs \<Longrightarrow> fsum xs = NaN"
  unfolding fsum_def by (rule foldl_fadd_has_NaN)

lemma fsum_NaN_Cons: "fsum (NaN # xs) = NaN"
  by (rule fsum_has_NaN) simp

lemma final_outs_row_NaN:
  assumes "length r = 11"
  shows "final_outs_row (map (\<lambda>v. NaN) r) = [NaN, NaN, NaN]"
proof -
  have m: "map (\<lambda>v. NaN) r = replicate 11 NaN"
    using assms by (simp add: map_replicate_const)
  have t: "take 5 (replicate 11 NaN) = NaN # replicate 4 NaN"
    by (simp add: numeral_eq_Suc)
  have d: "drop 5 (take 11 (replicate 11 NaN)) = NaN # replicate 5 NaN"
    by (simp add: numeral_eq_Suc)
  have l: "last (replicate 11 NaN) = NaN"
    by simp
  show ?thesis
    unfolding final_outs_row_def m t d l by (simp add: fsum_NaN_Cons)
qed

lemma joint_loss_all_NaN:
  assumes on: "outs_normal outs = Inr on"
    and fo: "final_outs on = Inr (replicate n [NaN, NaN, NaN])"
    and n: "0 < n"
    and ce: "\<forall>weights labels n. 0 < n \<longrightarrow> ce weights (replicate n [NaN, NaN, NaN]) labels = NaN"
  shows "joint_loss criterion ce outs labels org_labels = Inr NaN"
proof -
  from ce n have "ce [1.5, 1.5, 7] (replicate n [NaN, NaN, NaN]) org_labels = NaN" by blast
  then show ?thesis
    unfolding joint_loss_def Let_def on sum.case fo by (simp add: fadd_NaN_right)
qed

text \<open>
  Claim C10. Line 189 divides by \<open>torch.max(outs) - torch.min(outs)\<close> with no guard. On
  a batch with at least one logit the normalisation raises nothing. The divisor is zero
  exactly when all logits of the batch are equal, and then every normalised score is NaN,
  each of the three bucket scores of an 11-class batch is NaN, and, the cross-entropy of
  a batch of NaN scores being NaN, the loss that line 197 builds is NaN. When the
  divisor is neither zero nor beyond the \<^verbatim>\<open>float32\<close> range, every normalised score
  is a finite value in \<open>[0,1]\<close>; when it overflows, every score is zero or NaN.
\<close>

theorem normalization_unguarded:
  assumes "concat outs \<noteq> []"
    and "\<forall>weights labels n. 0 < n \<longrightarrow> ce weights (replicate n [NaN, NaN, NaN]) labels = NaN"
  shows "\<exists>mn mx on. torch_min outs = Inr mn \<and> torch_max outs = Inr mx
     \<and> outs_normal outs = Inr on
     \<and> map length on = map length outs
     \<and> ((fsub mx mn = Fin 0) = (\<forall>v\<in>set (concat outs). \<forall>w\<in>set (concat outs). v = w))
     \<and> (fsub mx mn = Fin 0 \<longrightarrow> (\<forall>s\<in>set (concat on). s = NaN))
     \<and> (fsub mx mn = Fin 0 \<and> (\<forall>r\<in>set outs. length r = 11) \<longrightarrow>
           final_outs on = Inr (map (\<lambda>r. [NaN, NaN, NaN]) outs))
     \<and> (fsub mx mn = Fin 0 \<and> (\<forall>r\<in>set outs. length r = 11) \<longrightarrow>
           joint_loss criterion ce outs labels org_labels = Inr NaN)
     \<and> (mx - mn \<noteq> 0 \<and> mx - mn < float_overflow \<longrightarrow>
           (\<forall>s\<in>set (concat on). \<exists>u. s = Fin u \<and> 0 \<le> u \<and> u \<le> 1))
     \<and> (float_overflow \<le> mx - mn \<longrightarrow> (\<forall>s\<in>set (concat on). s = Fin 0 \<or> s = NaN))"
proof -
  let ?S = "set (concat outs)"
  let ?mn = "Min ?S" and ?mx = "Max ?S"
  let ?f = "\<lambda>v. fdiv (fsub v ?mn) (fsub ?mx ?mn)"
  let ?on = "map (map ?f) outs"
  have fin: "finite ?S" and ne: "?S \<noteq> {}" using assms(1) by simp_all
  have on: "outs_normal outs = Inr ?on"
    using outs_normal_Inr [OF assms(1)] .
  have c: "concat ?on = map ?f (concat outs)"
    by (simp add: map_concat)
  have shape: "map length ?on = map length outs"
    by simp
  have zero: "(fsub ?mx ?mn = Fin 0) = (\<forall>v\<in>?S. \<forall>w\<in>?S. v = w)"
    unfolding fsub_zero_iff using range_zero_iff [OF fin ne] .
  have nan_entry: "?f v = NaN" if z: "fsub ?mx ?mn = Fin 0" and v: "v \<in> ?S" for v
  proof -
    have "?mn \<in> ?S" using Min_in [OF fin ne] .
    with z v zero have "v = ?mn" by blast
    then show ?thesis unfolding z using fdiv_zero_zero [of ?mn] by simp
  qed
  have nan: "fsub ?mx ?mn = Fin 0 \<longrightarrow> (\<forall>s\<in>set (concat ?on). s = NaN)"
    unfolding c using nan_entry by auto
  have buckets: "fsub ?mx ?mn = Fin 0 \<and> (\<forall>r\<in>set outs. length r = 11) \<longrightarrow>
           final_outs ?on = Inr (map (\<lambda>r. [NaN, NaN, NaN]) outs)"
  proof
    assume h: "fsub ?mx ?mn = Fin 0 \<and> (\<forall>r\<in>set outs. length r = 11)"
    have rows: "map ?f r = map (\<lambda>v. NaN) r" if "r \<in> set outs" for r
    proof (rule map_cong [OF refl])
      fix v assume "v \<in> set r"
      with that have "v \<in> ?S" by auto
      with h show "?f v = NaN" using nan_entry by blast
    qed
    have nonempty: "[] \<notin> set ?on"
      using h by auto
    have "final_outs_row (map ?f r) = [NaN, NaN, NaN]" if "r \<in> set outs" for r
    proof -
      from h that have "length r = 11" by blast
      from final_outs_row_NaN [OF this] rows [OF that] show ?thesis
        by (simp only:)
    qed
    then have "map final_outs_row ?on = map (\<lambda>r. [NaN, NaN, NaN]) outs"
      by (simp only: map_map o_def cong: map_cong)
    with nonempty show "final_outs ?on = Inr (map (\<lambda>r. [NaN, NaN, NaN]) outs)"
      unfolding final_outs_def by simp
  qed
  have loss: "fsub ?mx ?mn = Fin 0 \<and> (\<forall>r\<in>set outs. length r = 11) \<longrightarrow>
           joint_loss criterion ce outs labels org_labels = Inr NaN"
  proof
    assume h: "fsub ?mx ?mn = Fin 0 \<and> (\<forall>r\<in>set outs. length r = 11)"
    have o: "0 < length outs" using assms(1) by auto
    from buckets h have "final_outs ?on = Inr (map (\<lambda>r. [NaN, NaN, NaN]) outs)" by blast
    then have fo: "final_outs ?on = Inr (replicate (length outs) [NaN, NaN, NaN])"
      by (simp only: map_replicate_const)
    from joint_loss_all_NaN [OF on fo o assms(2)]
    show "joint_loss criterion ce outs labels org_labels = Inr NaN" .
  qed
  have unit: "?mx - ?mn \<noteq> 0 \<and> ?mx - ?mn < float_overflow \<longrightarrow>
      (\<forall>s\<in>set (concat ?on). \<exists>u. s = Fin u \<and> 0 \<le> u \<and> u \<le> 1)"
  proof (intro impI ballI)
    fix s assume nz: "?mx - ?mn \<noteq> 0 \<and> ?mx - ?mn < float_overflow" and "s \<in> set (concat ?on)"
    then obtain v where v: "v \<in> ?S" and s: "s = ?f v"
      unfolding c by auto
    have "?mn \<le> v" "v \<le> ?mx" using Min_le [OF fin v] Max_ge [OF fin v] .
    from fdiv_unit [OF this] nz s show "\<exists>u. s = Fin u \<and> 0 \<le> u \<and> u \<le> 1"
      by simp
  qed
  have over: "float_overflow \<le> ?mx - ?mn \<longrightarrow> (\<forall>s\<in>set (concat ?on). s = Fin 0 \<or> s = NaN)"
  proof (intro impI ballI)
    fix s assume ov: "float_overflow \<le> ?mx - ?mn" and "s \<in> set (concat ?on)"
    then obtain v where v: "v \<in> ?S" and s: "s = ?f v"
      unfolding c by auto
    have "?mn \<le> v" using Min_le [OF fin v] .
    from fdiv_overflow [OF this ov] s show "s = Fin 0 \<or> s = NaN" by simp
  qed
  show ?thesis
    using torch_min_Min [OF assms(1)] torch_max_Max [OF assms(1)] on
      shape zero nan buckets loss unit over
    by (intro exI [of _ ?mn] exI [of _ ?mx] exI [of _ ?on] conjI)
qed

theorem normalization_unguarded_witness:
  "concat [[2, 2, 2, 2, 2, 2, 2, 2, 2, 2, 2 :: real]] \<noteq> []
   \<and> outs_normal [[2, 2, 2, 2, 2, 2, 2, 2, 2, 2, 2]] =
       Inr [[NaN, NaN, NaN, NaN, NaN, NaN, NaN, NaN, NaN, NaN, NaN]]
   \<and> joint_loss (\<lambda>outs labels. Fin (real_of_int (hd labels)))
        (\<lambda>weights scores labels. fsum (concat scores))
        [[2, 2, 2, 2, 2, 2, 2, 2, 2, 2, 2]] [3] [1] = Inr NaN"
proof -
  let ?outs = "[[2, 2, 2, 2, 2, 2, 2, 2, 2, 2, 2 :: real]]"
  let ?c = "\<lambda>(outs :: real list list) (labels :: int list). Fin (real_of_int (hd labels))"
  let ?ce = "\<lambda>(weights :: real list) (scores :: fval list list) (labels :: int list).
    fsum (concat scores)"
  have a: "concat ?outs \<noteq> []" by simp
  have p: "\<forall>weights labels n. 0 < n \<longrightarrow> ?ce weights (replicate n [NaN, NaN, NaN]) labels = NaN"
  proof (intro allI impI)
    fix weights :: "real list" and labels :: "int list" and n :: nat
    assume "0 < n"
    then obtain m where "n = Suc m" by (cases n) auto
    then show "?ce weights (replicate n [NaN, NaN, NaN]) labels = NaN"
      by (simp add: fsum_NaN_Cons)
  qed
  have mn: "torch_min ?outs = Inr 2" and mx: "torch_max ?outs = Inr 2"
    unfolding torch_min_def torch_max_def by simp_all
  have z: "fsub 2 2 = Fin 0" using fsub_zero_iff [of 2 2] by simp
  have e: "outs_normal ?outs = Inr [[NaN, NaN, NaN, NaN, NaN, NaN, NaN, NaN, NaN, NaN, NaN]]"
    unfolding outs_normal_def mn mx sum.case by (simp add: z)
  from normalization_unguarded [OF a p, of ?c "[3]" "[1]"]
  obtain mn' mx' where "torch_min ?outs = Inr mn'" and "torch_max ?outs = Inr mx'"
    and l: "fsub mx' mn' = Fin 0 \<and> (\<forall>r\<in>set ?outs. length r = 11) \<longrightarrow>
           joint_loss ?c ?ce ?outs [3] [1] = Inr NaN"
    by blast
  then have "mn' = 2" and "mx' = 2" using mn mx by simp_all
  with l z have "joint_loss ?c ?ce ?outs [3] [1] = Inr NaN" by simp
  with a e show ?thesis by (intro conjI)
qed

section \<open>Bucket scores and the joint loss\<close>

lemma final_outs_row_11:
  "final_outs_row [a0, a1, a2, a3, a4, a5, a6, a7, a8, a9, a10] =
     [fsum [a0, a1, a2, a3, a4], fsum [a5, a6, a7, a8, a9, a10], a10]"
  unfolding final_outs_row_def by simp

lemma to_float_small:
  "to_float 0 = Fin 0" "to_float 1 = Fin 1"
  unfolding to_float_def float_overflow_def by simp_all

lemma fsub_small:
  "fsub 0 0 = Fin 0" "fsub 1 0 = Fin 1"
  unfolding fsub_def by (simp_all add: to_float_small)

lemma outs_normal_one_hot:
  "outs_normal [[0, 0, 0, 0, 0, 0, 0, 0, 0, 0, 1]] =
     Inr [[Fin 0, Fin 0, Fin 0, Fin 0, Fin 0, Fin 0, Fin 0, Fin 0, Fin 0, Fin 0, Fin 1]]"
proof -
  have mn: "torch_min [[0, 0, 0, 0, 0, 0, 0, 0, 0, 0, 1]] = Inr 0"
    and mx: "torch_max [[0, 0, 0, 0, 0, 0, 0, 0, 0, 0, 1]] = Inr 1"
    unfolding torch_min_def torch_max_def by simp_all
  show ?thesis
    unfolding outs_normal_def mn mx sum.case by (simp add: fsub_small to_float_small)
qed

text \<open>
  Claim C2. The claim has bucket 1 sum the normalised scores of the indices 5 to 9 and
  leaves the last index, 10, to bucket 2 alone. The slice \<^verbatim>\<open>5:11\<close> of line 190 reaches
  index 10 as well: on the one-row batch whose only non-zero logit is the last one, the
  normalised scores are the logits, and the last score is counted in bucket 1 and in
  bucket 2; for any row of 11 scores, bucket 1 is the sum of the six scores of the indices
  5 to 10 and bucket 2 is the score of index 10 again.
\<close>

theorem bucket_one_counts_last_index:
  "outs_normal [[0, 0, 0, 0, 0, 0, 0, 0, 0, 0, 1]] =
     Inr [[Fin 0, Fin 0, Fin 0, Fin 0, Fin 0, Fin 0, Fin 0, Fin 0, Fin 0, Fin 0, Fin 1]]
   \<and> final_outs [[Fin 0, Fin 0, Fin 0, Fin 0, Fin 0, Fin 0, Fin 0, Fin 0, Fin 0, Fin 0, Fin 1]] =
     Inr [[Fin 0, Fin 1, Fin 1]]
   \<and> final_outs_row [a0, a1, a2, a3, a4, a5, a6, a7, a8, a9, a10] =
     [fsum [a0, a1, a2, a3, a4], fsum [a5, a6, a7, a8, a9, a10], a10]"
proof -
  have f: "final_outs [[Fin 0, Fin 0, Fin 0, Fin 0, Fin 0, Fin 0, Fin 0, Fin 0, Fin 0, Fin 0, Fin 1]] =
     Inr [[Fin 0, Fin 1, Fin 1]]"
    unfolding final_outs_def by (simp add: final_outs_row_11 fsum_def)
  from outs_normal_one_hot f final_outs_row_11 [of a0 a1 a2 a3 a4 a5 a6 a7 a8 a9 a10]
  show ?thesis
    by (intro conjI)
qed

lemma well_shaped_concat:
  assumes "well_shaped outs"
  shows "concat outs \<noteq> []"
proof -
  from assms obtain r rs where o: "outs = r # rs" and "r \<noteq> []"
    unfolding well_shaped_def by (cases outs) auto
  then show ?thesis by simp
qed

lemma joint_loss_well_shaped:
  assumes "well_shaped outs"
  shows "joint_loss criterion ce outs labels org_labels =
        Inr (fadd (fmul (Fin 0.5) (criterion outs labels))
          (ce [1.5, 1.5, 7]
            (map (\<lambda>r. [fsum (take 5 r), fsum (drop 5 (take 11 r)), last r])
               (map (map (\<lambda>v. fdiv (fsub v (Min (set (concat outs))))
                  (fsub (Max (set (concat outs))) (Min (set (concat outs)))))) outs))
            org_labels))"
proof -
  let ?S = "set (concat outs)"
  let ?on = "map (map (\<lambda>v. fdiv (fsub v (Min ?S)) (fsub (Max ?S) (Min ?S)))) outs"
  have on: "outs_normal outs = Inr ?on"
    using outs_normal_Inr [OF well_shaped_concat [OF assms]] .
  have "[] \<notin> set ?on"
    using assms unfolding well_shaped_def by auto
  then have fo: "final_outs ?on = Inr (map final_outs_row ?on)"
    unfolding final_outs_def by simp
  have rows: "map final_outs_row ?on =
      map (\<lambda>r. [fsum (take 5 r), fsum (drop 5 (take 11 r)), last r]) ?on"
    by (rule map_cong [OF refl]) (simp only: final_outs_row_def)
  show ?thesis
    unfolding joint_loss_def Let_def on sum.case fo rows ..
qed

section \<open>The batch loop\<close>

lemma half_fadd: "fdiv_real (fadd a b) 2 = fadd (fdiv_real a 2) (fdiv_real b 2)"
  by (cases a; cases b) (simp_all add: add_divide_distrib)

lemma foldl_half:
  "foldl fadd (fdiv_real a 2) (map (\<lambda>l. fdiv_real l 2) w) = fdiv_real (foldl fadd a w) 2"
  by (induction w arbitrary: a) (simp_all add: half_fadd [symmetric])

lemma fsum_half: "fsum (map (\<lambda>l. fdiv_real l 2) w) = fdiv_real (fsum w) 2"
  unfolding fsum_def using foldl_half [of "Fin 0" w] by simp

lemma half_div:
  assumes "0 < d"
  shows "fdiv_real (fdiv_real x 2) d = fmul (Fin (1 / 2)) (fdiv_real x d)"
  using assms by (cases x) simp_all

lemma fsum_snoc: "fsum (w @ [l]) = fadd (fsum w) l"
  unfolding fsum_def by simp

lemma full_windows_short:
  assumes "length xs < n"
  shows "full_windows n xs = []"
  using assms by (subst full_windows.simps) simp

lemma full_windows_exact:
  assumes "length w = n" and "0 < n"
  shows "full_windows n (w @ xs) = w # full_windows n xs"
  using assms by (subst full_windows.simps) simp

lemma full_windows_length:
  "w \<in> set (full_windows n xs) \<Longrightarrow> length w = n"
proof (induction n xs rule: full_windows.induct)
  case (1 n xs)
  show ?case
  proof (cases "n = 0 \<or> length xs < n")
    case True
    then have "full_windows n xs = []" by (subst full_windows.simps) simp
    with "1.prems" show ?thesis by simp
  next
    case False
    with "1.prems" have "w = take n xs \<or> w \<in> set (full_windows n (drop n xs))"
      by (subst (asm) full_windows.simps) auto
    then show ?thesis
    proof
      assume "w = take n xs"
      with False show ?thesis by simp
    next
      assume "w \<in> set (full_windows n (drop n xs))"
      with "1.IH" False show ?thesis by blast
    qed
  qed
qed

lemma train_batches_run:
  assumes "0 < L"
    and "map (\<lambda>(outs, org_labels, labels). joint_loss c ce outs labels org_labels) bs = map Inr ls"
    and "loss_value st = fsum (map (\<lambda>l. fdiv_real l 2) w)"
    and "length w = idx mod nat L"
  shows "\<exists>st'. train_batches c ce L idx bs st = Inr st'
    \<and> backward st' = backward st @ ls
    \<and> logged st' = logged st @ map (\<lambda>w. fdiv_real (fsum (map (\<lambda>l. fdiv_real l 2) w)) (real_of_int L))
          (full_windows (nat L) (w @ ls))"
  using assms(2-4)
proof (induction bs arbitrary: ls idx st w)
  case Nil
  then have ls: "ls = []" by simp
  have "length w < nat L" using Nil.prems(3) assms(1) by simp
  then show ?case using ls by (simp add: full_windows_short)
next
  case (Cons b bs)
  obtain outs org_labels labels where b: "b = (outs, org_labels, labels)"
    by (cases b) auto
  from Cons.prems(1) obtain l ls' where ls: "ls = l # ls'"
    and l: "joint_loss c ce outs labels org_labels = Inr l"
    and rest: "map (\<lambda>(outs, org_labels, labels). joint_loss c ce outs labels org_labels) bs = map Inr ls'"
    unfolding b by (cases ls) auto
  let ?half = "\<lambda>l. fdiv_real l 2"
  let ?g = "\<lambda>w. fdiv_real (fsum (map ?half w)) (real_of_int L)"
  let ?st1 = "st\<lparr>backward := backward st @ [l], loss_value := fadd (loss_value st) (fdiv_real l 2)\<rparr>"
  have lv1: "loss_value ?st1 = fsum (map ?half (w @ [l]))"
    using Cons.prems(2) by (simp add: fsum_snoc)
  have n0: "0 < nat L" using assms(1) by simp
  have cond: "((int idx + 1) mod L = 0) = (Suc (length w) = nat L)"
  proof -
    have "int (Suc idx mod nat L) = int (Suc idx) mod int (nat L)"
      by (rule zmod_int)
    also have "int (nat L) = L" using assms(1) by simp
    also have "int (Suc idx) = int idx + 1" by simp
    finally have "(int idx + 1) mod L = int (Suc idx mod nat L)" by simp
    then have "((int idx + 1) mod L = 0) = (Suc idx mod nat L = 0)"
      by simp
    also have "\<dots> = (Suc (idx mod nat L) = nat L)"
      using n0 by (simp add: mod_Suc)
    finally show ?thesis using Cons.prems(3) by simp
  qed
  show ?case
  proof (cases "(int idx + 1) mod L = 0")
    case True
    let ?st2 = "?st1\<lparr>logged := logged ?st1 @ [fdiv_real (loss_value ?st1) (real_of_int L)],
                       loss_value := Fin 0\<rparr>"
    have full: "length (w @ [l]) = nat L" using True cond by simp
    have "Suc idx mod nat L = 0"
      using True cond n0 Cons.prems(3) by (simp add: mod_Suc)
    then have len: "length ([] :: fval list) = Suc idx mod nat L" by simp
    have lv2: "loss_value ?st2 = fsum (map ?half [])" by (simp add: fsum_def)
    from Cons.IH [OF rest lv2 len] obtain st' where
      run: "train_batches c ce L (Suc idx) bs ?st2 = Inr st'"
      and bw: "backward st' = backward ?st2 @ ls'"
      and lg: "logged st' = logged ?st2 @ map ?g (full_windows (nat L) ([] @ ls'))"
      by blast
    have step: "train_batches c ce L idx (b # bs) st = train_batches c ce L (Suc idx) bs ?st2"
      unfolding b using l True assms(1) by (simp add: Let_def)
    have fw: "full_windows (nat L) (w @ ls) = (w @ [l]) # full_windows (nat L) ls'"
      using full_windows_exact [OF full n0, of ls'] unfolding ls by simp
    have "logged st' = logged st @ map ?g (full_windows (nat L) (w @ ls))"
      unfolding lg fw using lv1 by simp
    moreover have "backward st' = backward st @ ls"
      unfolding bw ls by simp
    ultimately show ?thesis using step run by simp
  next
    case False
    have len: "length (w @ [l]) = Suc idx mod nat L"
      using False cond n0 Cons.prems(3) by (simp add: mod_Suc)
    from Cons.IH [OF rest lv1 len] obtain st' where
      run: "train_batches c ce L (Suc idx) bs ?st1 = Inr st'"
      and bw: "backward st' = backward ?st1 @ ls'"
      and lg: "logged st' = logged ?st1 @ map ?g (full_windows (nat L) ((w @ [l]) @ ls'))"
      by blast
    have step: "train_batches c ce L idx (b # bs) st = train_batches c ce L (Suc idx) bs ?st1"
      unfolding b using l False assms(1) by (simp add: Let_def)
    have "logged st' = logged st @ map ?g (full_windows (nat L) (w @ ls))"
      unfolding lg ls by simp
    moreover have "backward st' = backward st @ ls"
      unfolding bw ls by simp
    ultimately show ?thesis using step run by simp
  qed
qed


lemma train_batches_backward:
  assumes "L \<noteq> 0"
    and "map (\<lambda>(outs, org_labels, labels). joint_loss c ce outs labels org_labels) bs = map Inr ls"
  shows "\<exists>st'. train_batches c ce L idx bs st = Inr st' \<and> backward st' = backward st @ ls"
  using assms(2)
proof (induction bs arbitrary: ls idx st)
  case Nil
  then show ?case by simp
next
  case (Cons b bs)
  obtain outs org_labels labels where b: "b = (outs, org_labels, labels)"
    by (cases b) auto
  from Cons.prems obtain l ls' where ls: "ls = l # ls'"
    and l: "joint_loss c ce outs labels org_labels = Inr l"
    and rest: "map (\<lambda>(outs, org_labels, labels). joint_loss c ce outs labels org_labels) bs = map Inr ls'"
    unfolding b by (cases ls) auto
  let ?st1 = "st\<lparr>backward := backward st @ [l], loss_value := fadd (loss_value st) (fdiv_real l 2)\<rparr>"
  let ?st2 = "?st1\<lparr>logged := logged ?st1 @ [fdiv_real (loss_value ?st1) (real_of_int L)],
                     loss_value := Fin 0\<rparr>"
  show ?case
  proof (cases "(int idx + 1) mod L = 0")
    case True
    from Cons.IH [OF rest, of "Suc idx" ?st2] obtain st' where
      "train_batches c ce L (Suc idx) bs ?st2 = Inr st'" and "backward st' = backward ?st2 @ ls'"
      by blast
    moreover have "train_batches c ce L idx (b # bs) st = train_batches c ce L (Suc idx) bs ?st2"
      unfolding b using l True assms(1) by (simp add: Let_def)
    ultimately show ?thesis unfolding ls by simp
  next
    case False
    from Cons.IH [OF rest, of "Suc idx" ?st1] obtain st' where
      "train_batches c ce L (Suc idx) bs ?st1 = Inr st'" and "backward st' = backward ?st1 @ ls'"
      by blast
    moreover have "train_batches c ce L idx (b # bs) st = train_batches c ce L (Suc idx) bs ?st1"
      unfolding b using l False assms(1) by (simp add: Let_def)
    ultimately show ?thesis unfolding ls by simp
  qed
qed

lemma losses_exist:
  assumes "\<forall>b\<in>set bs. well_shaped (fst b)"
  shows "\<exists>ls. map (\<lambda>(outs, org_labels, labels). joint_loss c ce outs labels org_labels) bs = map Inr ls"
  using assms
proof (induction bs)
  case Nil
  then show ?case by simp
next
  case (Cons b bs)
  obtain outs org_labels labels where b: "b = (outs, org_labels, labels)"
    by (cases b) auto
  from Cons.prems have "well_shaped outs" unfolding b by simp
  from joint_loss_well_shaped [OF this, where criterion = c and ce = ce and labels = labels and org_labels = org_labels]
  obtain l where l: "joint_loss c ce outs labels org_labels = Inr l" by simp
  from Cons obtain ls where
    "map (\<lambda>(outs, org_labels, labels). joint_loss c ce outs labels org_labels) bs = map Inr ls"
    by auto
  with l have "map (\<lambda>(outs, org_labels, labels). joint_loss c ce outs labels org_labels) (b # bs)
      = map Inr (l # ls)"
    unfolding b by simp
  then show ?case by blast
qed

text \<open>
  Claim C3. On a train loader whose batches of logits are well shaped, and with a log
  interval that is not zero, the batch loop returns and calls \<^verbatim>\<open>loss.backward()\<close> once
  per batch, in order. The loss of a batch is \<open>0.5 * fine_loss + coarse_loss\<close>:
  \<open>fine_loss\<close> is the configured criterion on the logits and the fine labels, and
  \<open>coarse_loss\<close> is the cross-entropy with class weights \<open>[1.5, 1.5, 7]\<close> on the coarse
  labels and on three scores per sample, which are, for the logits of the sample
  normalised by the minimum and the maximum of the batch, the sum of the first five
  scores, the sum of the scores of the slice \<^verbatim>\<open>5:11\<close>, and the last score.
\<close>

theorem backpropagated_loss:
  assumes "\<forall>b\<in>set train_loader. well_shaped (fst b)" and "log_interval \<noteq> 0"
  shows "\<exists>st. train_epoch criterion ce log_interval train_loader = Inr st
     \<and> length (backward st) = length train_loader
     \<and> (\<forall>i<length train_loader. case train_loader ! i of (outs, org_labels, labels) \<Rightarrow>
          backward st ! i =
            fadd (fmul (Fin 0.5) (criterion outs labels))
              (ce [1.5, 1.5, 7]
                (map (\<lambda>r. [fsum (take 5 r), fsum (drop 5 (take 11 r)), last r])
                   (map (map (\<lambda>v. fdiv (fsub v (Min (set (concat outs))))
                      (fsub (Max (set (concat outs))) (Min (set (concat outs)))))) outs))
                org_labels))"
proof -
  let ?jl = "\<lambda>(outs, org_labels, labels). joint_loss criterion ce outs labels org_labels"
  from losses_exist [OF assms(1)] obtain ls where ls: "map ?jl train_loader = map Inr ls"
    by blast
  from train_batches_backward [OF assms(2) ls, of 0 "\<lparr>loss_value = Fin 0, backward = [], logged = []\<rparr>"]
  obtain st where run: "train_epoch criterion ce log_interval train_loader = Inr st"
    and bw: "backward st = ls"
    unfolding train_epoch_def by auto
  have len: "length ls = length train_loader"
    using ls by (metis length_map)
  have each: "case train_loader ! i of (outs, org_labels, labels) \<Rightarrow>
          ls ! i =
            fadd (fmul (Fin 0.5) (criterion outs labels))
              (ce [1.5, 1.5, 7]
                (map (\<lambda>r. [fsum (take 5 r), fsum (drop 5 (take 11 r)), last r])
                   (map (map (\<lambda>v. fdiv (fsub v (Min (set (concat outs))))
                      (fsub (Max (set (concat outs))) (Min (set (concat outs)))))) outs))
                org_labels)"
    if i: "i < length train_loader" for i
  proof -
    obtain outs org_labels labels where b: "train_loader ! i = (outs, org_labels, labels)"
      by (cases "train_loader ! i") auto
    have "train_loader ! i \<in> set train_loader" using i by simp
    with assms(1) b have "well_shaped outs" by force
    note jl = joint_loss_well_shaped [OF this, where criterion = criterion and ce = ce
        and labels = labels and org_labels = org_labels]
    have "map ?jl train_loader ! i = map Inr ls ! i" using ls by simp
    then have "joint_loss criterion ce outs labels org_labels = Inr (ls ! i)"
      using i len b by simp
    then have "Inr (ls ! i) = (Inr (fadd (fmul (Fin 0.5) (criterion outs labels))
              (ce [1.5, 1.5, 7]
                (map (\<lambda>r. [fsum (take 5 r), fsum (drop 5 (take 11 r)), last r])
                   (map (map (\<lambda>v. fdiv (fsub v (Min (set (concat outs))))
                      (fsub (Max (set (concat outs))) (Min (set (concat outs)))))) outs))
                org_labels)) :: pyerror + fval)"
      unfolding jl by simp
    then show ?thesis unfolding b by simp
  qed
  have each': "\<forall>i<length train_loader. case train_loader ! i of (outs, org_labels, labels) \<Rightarrow>
          backward st ! i =
            fadd (fmul (Fin 0.5) (criterion outs labels))
              (ce [1.5, 1.5, 7]
                (map (\<lambda>r. [fsum (take 5 r), fsum (drop 5 (take 11 r)), last r])
                   (map (map (\<lambda>v. fdiv (fsub v (Min (set (concat outs))))
                      (fsub (Max (set (concat outs))) (Min (set (concat outs)))))) outs))
                org_labels)"
    unfolding bw using each by blast
  have l: "length (backward st) = length train_loader" unfolding bw by (rule len)
  from run l each' show ?thesis by (intro exI [of _ st] conjI)
qed

lemma full_windows_nth:
  assumes "0 < n"
  shows "k < length xs div n \<Longrightarrow> full_windows n xs ! k = take n (drop (k * n) xs)"
proof (induction k arbitrary: xs)
  case 0
  then have "n \<le> length xs"
    using assms by (metis div_less not_less less_nat_zero_code)
  then show ?case using assms by (subst full_windows.simps) simp
next
  case (Suc k)
  have ge: "n \<le> length xs"
  proof (rule ccontr)
    assume "\<not> n \<le> length xs"
    then have "length xs div n = 0" by simp
    with Suc.prems show False by simp
  qed
  then have "length xs div n = Suc ((length xs - n) div n)"
    using assms by (simp add: le_div_geq)
  with Suc.prems have "k < length (drop n xs) div n" by simp
  from Suc.IH [OF this] have "full_windows n (drop n xs) ! k = take n (drop (k * n) (drop n xs))" .
  moreover have "full_windows n xs = take n xs # full_windows n (drop n xs)"
    using ge assms by (subst full_windows.simps) simp
  ultimately show ?case by (simp add: add.commute)
qed

lemma full_windows_count:
  assumes "0 < n"
  shows "length (full_windows n xs) = length xs div n"
proof (induction n xs rule: full_windows.induct)
  case (1 n xs)
  show ?case
  proof (cases "n = 0 \<or> length xs < n")
    case True
    then show ?thesis by (subst full_windows.simps) auto
  next
    case False
    then have ge: "n \<le> length xs" and n0: "0 < n" by simp_all
    have "length (full_windows n xs) = Suc (length (full_windows n (drop n xs)))"
      using False by (subst full_windows.simps) simp
    also have "\<dots> = Suc ((length xs - n) div n)"
      using "1.IH" False by simp
    also have "\<dots> = length xs div n"
      using ge n0 by (simp add: le_div_geq)
    finally show ?thesis .
  qed
qed

text \<open>
  Claim C8. Line 202 adds \<^verbatim>\<open>loss.item() / 2\<close> to the accumulator. With a positive log
  interval \<open>n\<close>, the loop logs once per full window of \<open>n\<close> consecutive batches, and
  the \<open>k\<close>-th value of \<^verbatim>\<open>train_loss\<close> is one half of the mean of the combined losses
  that were backpropagated in the \<open>k\<close>-th window.
\<close>

theorem logged_loss_is_half_mean:
  assumes "\<forall>b\<in>set train_loader. well_shaped (fst b)" and "0 < log_interval"
  shows "\<exists>st. train_epoch criterion ce log_interval train_loader = Inr st
     \<and> map Inr (backward st) =
         map (\<lambda>(outs, org_labels, labels). joint_loss criterion ce outs labels org_labels) train_loader
     \<and> length (logged st) = length train_loader div nat log_interval
     \<and> (\<forall>k<length (logged st).
          logged st ! k =
            fmul (Fin 0.5) (fmean (take (nat log_interval) (drop (k * nat log_interval) (backward st)))))"
proof -
  let ?jl = "\<lambda>(outs, org_labels, labels). joint_loss criterion ce outs labels org_labels"
  let ?n = "nat log_interval"
  let ?g = "\<lambda>w. fdiv_real (fsum (map (\<lambda>l. fdiv_real l 2) w)) (real_of_int log_interval)"
  have n0: "0 < ?n" using assms(2) by simp
  from losses_exist [OF assms(1)] obtain ls where ls: "map ?jl train_loader = map Inr ls"
    by blast
  have lv: "loss_value \<lparr>loss_value = Fin 0, backward = [], logged = []\<rparr>
      = fsum (map (\<lambda>l. fdiv_real l 2) [])"
    by (simp add: fsum_def)
  have len0: "length ([] :: fval list) = 0 mod ?n" by simp
  from train_batches_run [OF assms(2) ls lv len0]
  obtain st where run: "train_epoch criterion ce log_interval train_loader = Inr st"
    and bw: "backward st = ls"
    and lg: "logged st = map ?g (full_windows ?n ls)"
    unfolding train_epoch_def by auto
  have len: "length ls = length train_loader"
    using ls by (metis length_map)
  have count: "length (logged st) = length train_loader div ?n"
    unfolding lg using full_windows_count [OF n0, of ls] len by simp
  have each: "logged st ! k = fmul (Fin 0.5) (fmean (take ?n (drop (k * ?n) ls)))"
    if k: "k < length (logged st)" for k
  proof -
    let ?w = "take ?n (drop (k * ?n) ls)"
    have k': "k < length ls div ?n" using k count len by simp
    have w: "full_windows ?n ls ! k = ?w"
      using full_windows_nth [OF n0 k'] .
    have "k < length (full_windows ?n ls)" using k lg by simp
    then have "?w \<in> set (full_windows ?n ls)" using w by (metis nth_mem)
    then have lw: "length ?w = ?n" by (rule full_windows_length)
    have "logged st ! k = ?g ?w"
      using k w unfolding lg by simp
    also have "\<dots> = fdiv_real (fdiv_real (fsum ?w) 2) (real_of_int log_interval)"
      by (simp only: fsum_half)
    also have "\<dots> = fmul (Fin (1 / 2)) (fdiv_real (fsum ?w) (real_of_int log_interval))"
      using assms(2) by (intro half_div) simp
    also have "real_of_int log_interval = real (length ?w)"
      unfolding lw using assms(2) by simp
    finally show ?thesis unfolding fmean_def by simp
  qed
  from run ls bw count each show ?thesis by auto
qed

theorem backpropagated_loss_witness:
  "well_shaped [[0, 0, 0, 0, 0, 0, 0, 0, 0, 0, 1]] \<and> (20::int) \<noteq> 0
   \<and> (\<exists>st. train_epoch (\<lambda>outs labels. Fin (real_of_int (hd labels)))
              (\<lambda>weights scores labels. fmul (Fin (weights ! nat (hd labels))) (hd scores ! 1)) 20
              [([[0, 0, 0, 0, 0, 0, 0, 0, 0, 0, 1]], [2], [10])] = Inr st
         \<and> backward st = [Fin 12])"
proof -
  let ?outs = "[[0, 0, 0, 0, 0, 0, 0, 0, 0, 0, 1 :: real]]"
  let ?c = "\<lambda>(outs :: real list list) (labels :: int list). Fin (real_of_int (hd labels))"
  let ?ce = "\<lambda>(weights :: real list) (scores :: fval list list) (labels :: int list).
    fmul (Fin (weights ! nat (hd labels))) (hd scores ! 1)"
  have ws: "well_shaped ?outs" unfolding well_shaped_def by simp
  then have h: "\<forall>b\<in>set [(?outs, [2::int], [10::int])]. well_shaped (fst b)" by simp
  have nz: "(20::int) \<noteq> 0" by simp
  have mn: "Min (set (concat ?outs)) = 0" and mx: "Max (set (concat ?outs)) = 1"
    by simp_all
  from backpropagated_loss [OF h nz, of ?c ?ce]
  obtain st where run: "train_epoch ?c ?ce 20 [(?outs, [2], [10])] = Inr st"
    and len: "length (backward st) = 1"
    and v: "backward st ! 0 =
        fadd (fmul (Fin 0.5) (?c ?outs [10]))
          (?ce [1.5, 1.5, 7]
            (map (\<lambda>r. [fsum (take 5 r), fsum (drop 5 (take 11 r)), last r])
               (map (map (\<lambda>v. fdiv (fsub v (Min (set (concat ?outs))))
                  (fsub (Max (set (concat ?outs))) (Min (set (concat ?outs)))))) ?outs))
            [2])"
    by auto
  have "backward st ! 0 = Fin 12"
    unfolding v mn mx by (simp add: fsub_small to_float_small fsum_def)
  with len have "backward st = [Fin 12]"
    by (cases "backward st") simp_all
  with ws nz run show ?thesis by blast
qed

theorem logged_loss_is_half_mean_witness:
  "well_shaped [[0, 1]] \<and> (0::int) < 2
   \<and> (\<exists>st. train_epoch (\<lambda>outs labels. Fin (real_of_int (hd labels))) (\<lambda>weights scores labels. Fin 1) 2
              [([[0, 1]], [0], [2]), ([[0, 1]], [0], [6]), ([[0, 1]], [0], [4])] = Inr st
         \<and> backward st = [Fin 2, Fin 4, Fin 3]
         \<and> logged st = [Fin 1.5])"
proof -
  let ?c = "\<lambda>(outs :: real list list) (labels :: int list). Fin (real_of_int (hd labels))"
  let ?ce = "\<lambda>(weights :: real list) (scores :: fval list list) (labels :: int list). Fin 1"
  let ?tl = "[([[0, 1]], [0], [2]), ([[0, 1]], [0], [6]), ([[0, 1]], [0], [4])] :: batch list"
  have ws: "well_shaped [[0, 1]]" unfolding well_shaped_def by simp
  then have h: "\<forall>b\<in>set ?tl. well_shaped (fst b)" by simp
  have pos: "(0::int) < 2" by simp
  have jl: "joint_loss ?c ?ce [[0, 1]] labels [0] =
      Inr (fadd (fmul (Fin 0.5) (Fin (real_of_int (hd labels)))) (Fin 1))"
    for labels
    using joint_loss_well_shaped [OF ws, where criterion = ?c and ce = ?ce and labels = labels
        and org_labels = "[0]"] by simp
  from logged_loss_is_half_mean [OF h pos, of ?c ?ce]
  obtain st where run: "train_epoch ?c ?ce 2 ?tl = Inr st"
    and bw: "map Inr (backward st) =
         map (\<lambda>(outs, org_labels, labels). joint_loss ?c ?ce outs labels org_labels) ?tl"
    and len: "length (logged st) = length ?tl div nat 2"
    and each: "\<forall>k<length (logged st).
          logged st ! k = fmul (Fin 0.5) (fmean (take (nat 2) (drop (k * nat 2) (backward st))))"
    by blast
  from bw have "map Inr (backward st) = (map Inr [Fin 2, Fin 4, Fin 3] :: (pyerror + fval) list)"
    by (simp add: jl)
  then have b: "backward st = [Fin 2, Fin 4, Fin 3]"
    using inj_map_eq_map [OF inj_Inr] by blast
  from len have l1: "length (logged st) = 1" by simp
  with each have "logged st ! 0 = fmul (Fin 0.5) (fmean (take (nat 2) (drop (0 * nat 2) (backward st))))"
    by simp
  then have "logged st ! 0 = Fin 1.5"
    unfolding b fmean_def fsum_def by simp
  with l1 have "logged st = [Fin 1.5]"
    by (cases "logged st") simp_all
  with ws pos run b show ?thesis by blast
qed

section \<open>The validation pass\<close>

lemma concat_full_windows:
  "concat (full_windows n xs) = take (length xs div n * n) xs"
proof (induction n xs rule: full_windows.induct)
  case (1 n xs)
  show ?case
  proof (cases "n = 0 \<or> length xs < n")
    case True
    then show ?thesis by (subst full_windows.simps) auto
  next
    case False
    then have ge: "n \<le> length xs" and n0: "0 < n" by simp_all
    have d: "length xs div n = Suc ((length xs - n) div n)"
      using ge n0 by (simp add: le_div_geq)
    have "concat (full_windows n xs) = take n xs @ concat (full_windows n (drop n xs))"
      using False by (subst full_windows.simps) simp
    also have "\<dots> = take n xs @ take ((length xs - n) div n * n) (drop n xs)"
      using "1.IH" False by simp
    also have "\<dots> = take (n + (length xs - n) div n * n) xs"
      by (simp add: take_add)
    finally show ?thesis unfolding d by simp
  qed
qed

lemma scored_samples_take:
  assumes "0 < valid_batch_size"
  shows "scored_samples valid_batch_size val_set =
    Inr (take (length val_set div nat valid_batch_size * nat valid_batch_size) val_set)"
  using assms unfolding scored_samples_def data_loader_def by (simp add: concat_full_windows)

lemma full_windows_two_batches:
  assumes "length a = n" and "length b = n" and "length c < n"
  shows "full_windows n (a @ b @ c) = [a, b]"
proof -
  have n0: "0 < n" using assms(3) by simp
  have "full_windows n c = []"
    using assms(3) by (rule full_windows_short)
  then have "full_windows n (b @ c) = [b]"
    using full_windows_exact [OF assms(2) n0, of c] by simp
  then show ?thesis
    using full_windows_exact [OF assms(1) n0, of "b @ c"] by simp
qed

lemma validation_loader_40:
  "data_loader 16 (replicate 16 x @ replicate 16 x @ replicate 8 y) =
     Inr [replicate 16 x, replicate 16 x]"
proof -
  have "full_windows 16 (replicate 16 x @ replicate 16 x @ replicate 8 y) =
      [replicate 16 x, replicate 16 x]"
    by (rule full_windows_two_batches) simp_all
  then show ?thesis unfolding data_loader_def by simp
qed

lemma replicate_40_split:
  "replicate 40 x = replicate 16 x @ replicate 16 x @ replicate 8 x"
  "replicate 32 x @ replicate 8 y = replicate 16 x @ replicate 16 x @ replicate 8 y"
  by (simp_all add: replicate_add [symmetric])

lemma validate_40:
  assumes "n \<le> 16"
  shows "validate f1_score n 16 (replicate 16 (0, 0) @ replicate 16 (0, 0) @ replicate 8 (0, p)) =
      Inr (f1_score (replicate 16 0) (replicate 16 0), 4 / 5)"
  unfolding validate_def validation_loader_40 using assms
  by (simp add: grid_image_def acc_item_def)

text \<open>
  Claim C5. The validation loader is built with \<^verbatim>\<open>drop_last=True\<close>, so the samples
  after the last full batch never reach the model, while \<^verbatim>\<open>val_acc\<close> divides by
  \<^verbatim>\<open>len(val_set)\<close>. On 40 samples that the model all predicts correctly, with
  batches of 16, the pass of \<^verbatim>\<open>train_age.py\<close> (\<open>n = 16\<close>) and the pass of
  \<^verbatim>\<open>train_5fold.py\<close> (\<open>n = 10\<close>) score 32 samples and give the accuracy 4/5; the
  predictions for the last eight samples change neither the accuracy nor the F1.
\<close>

theorem validation_drops_last_samples:
  "scored_samples 16 (replicate 40 (0, 0) :: (int \<times> int) list) = Inr (replicate 32 (0, 0))
   \<and> validate f1_score 16 16 (replicate 40 (0, 0)) =
      Inr (f1_score (replicate 16 0) (replicate 16 0), 4 / 5)
   \<and> validate f1_score 16 16 (replicate 32 (0, 0) @ replicate 8 (0, 1)) =
      validate f1_score 16 16 (replicate 40 (0, 0))
   \<and> validate f1_score 10 16 (replicate 40 (0, 0)) =
      Inr (f1_score (replicate 16 0) (replicate 16 0), 4 / 5)
   \<and> validate f1_score 10 16 (replicate 32 (0, 0) @ replicate 8 (0, 1)) =
      validate f1_score 10 16 (replicate 40 (0, 0))"
proof -
  have s: "scored_samples 16 (replicate 40 (0, 0) :: (int \<times> int) list) = Inr (replicate 32 (0, 0))"
    using scored_samples_take [of 16 "replicate 40 (0, 0) :: (int \<times> int) list"] by simp
  have v: "validate f1_score n 16 (replicate 40 (0, 0)) =
      Inr (f1_score (replicate 16 0) (replicate 16 0), 4 / 5)"
    and w: "validate f1_score n 16 (replicate 32 (0, 0) @ replicate 8 (0, 1)) =
      Inr (f1_score (replicate 16 0) (replicate 16 0), 4 / 5)"
    if "n \<le> 16" for n
    unfolding replicate_40_split using validate_40 [OF that] by simp_all
  have a: "(16::int) \<le> 16" and b: "(10::int) \<le> 16" by simp_all
  show ?thesis
    using s v [OF a] w [OF a] v [OF b] w [OF b] by simp
qed

section \<open>The files of the inference script\<close>

text \<open>
  Claim C6. The path that \<^verbatim>\<open>test.py\<close> passes to \<^verbatim>\<open>torch.load\<close> is the path to which
  it later writes its table of predictions with \<^verbatim>\<open>to_csv\<close>, a \<^verbatim>\<open>.csv\<close> path.
\<close>

theorem torch_load_path_is_csv_output:
  "test_main_accesses =
     [ReadCsv ''/opt/ml/input/data/eval/info.csv'',
      TorchLoad ''/opt/ml/submissions/submission_effb5age.csv'',
      ToCsv ''/opt/ml/submissions/submission_effb5age.csv'']
   \<and> has_suffix ''.csv'' ''/opt/ml/submissions/submission_effb5age.csv''"
  unfolding test_main_accesses_def os_path_join_def test_dir_def has_suffix_def by simp

section \<open>Name binding in the validation loop\<close>

lemma load_name_error:
  "load_name builtins bound n = Inl e \<Longrightarrow> is_name_error e"
  unfolding load_name_def is_name_error_def by (auto split: if_splits)

lemma load_names_error:
  "load_names builtins bound ns = Inl e \<Longrightarrow> is_name_error e"
  by (induction ns) (auto split: sum.splits dest: load_name_error)

lemma exec_stmt_error:
  "exec_stmt builtins s bound = Inl e \<Longrightarrow> is_name_error e"
  unfolding exec_stmt_def by (auto split: sum.splits dest: load_names_error)

lemma exec_block_error:
  "exec_block builtins ss bound = Inl e \<Longrightarrow> is_name_error e"
  by (induction ss arbitrary: bound) (auto split: sum.splits dest: exec_stmt_error)

lemma load_names_unbound:
  assumes "load_name builtins bound n = Inl e" and "n \<in> set ns"
  shows "\<exists>e'. load_names builtins bound ns = Inl e'"
  using assms(2) by (induction ns) (auto split: sum.splits simp: assms(1))

lemma y_pred_static:
  "''y_pred'' \<notin> set train_models_locals \<and> ''y_pred'' \<notin> set module_globals"
  unfolding train_models_locals_def module_globals_def by simp

lemma load_y_pred:
  assumes "''y_pred'' \<notin> builtins"
  shows "load_name builtins bound ''y_pred'' = Inl (NameError ''y_pred'')"
  using assms y_pred_static unfolding load_name_def by simp

lemma exec_block_reads_y_pred:
  assumes "''y_pred'' \<notin> builtins" and "s \<in> set ss" and "''y_pred'' \<in> set (fst s)"
  shows "\<exists>e. exec_block builtins ss bound = Inl e"
  using assms(2)
proof (induction ss arbitrary: bound)
  case Nil
  then show ?case by simp
next
  case (Cons t ts)
  show ?case
  proof (cases "exec_stmt builtins t bound")
    case (Inl e)
    then show ?thesis by simp
  next
    case (Inr bound')
    have "t \<noteq> s"
    proof
      assume "t = s"
      with load_names_unbound [OF load_y_pred [OF assms(1)] assms(3), of bound] Inr
      show False unfolding exec_stmt_def by (auto split: sum.splits)
    qed
    with Cons.prems have "s \<in> set ts" by simp
    from Cons.IH [OF this, of bound'] Inr show ?thesis by simp
  qed
qed

lemma val_body_reads_y_pred:
  "\<exists>s\<in>set val_body. ''y_pred'' \<in> set (fst s)"
  unfolding val_body_def by simp

lemma val_loop_fails:
  assumes "''y_pred'' \<notin> builtins" and "0 < n"
  shows "\<exists>e. val_loop builtins n bound = Inl e \<and> is_name_error e"
proof -
  from assms(2) obtain m where n: "n = Suc m" by (cases n) auto
  from val_body_reads_y_pred obtain s where "s \<in> set val_body" and "''y_pred'' \<in> set (fst s)"
    by blast
  from exec_block_reads_y_pred [OF assms(1) this]
  obtain e where e: "exec_block builtins val_body (bound \<union> {''val_iter'', ''val_batch''}) = Inl e"
    by blast
  then have ne: "is_name_error e" by (rule exec_block_error)
  show ?thesis
  proof (cases "load_names builtins bound [''enumerate'', ''val_dataloader'']")
    case (Inl e')
    then have "is_name_error e'" by (rule load_names_error)
    with Inl show ?thesis unfolding val_loop_def by simp
  next
    case (Inr u)
    with e ne show ?thesis unfolding val_loop_def n by simp
  qed
qed


lemma local_names:
  "''val_batch'' \<in> set train_models_locals" "''img'' \<in> set train_models_locals"
  "''label'' \<in> set train_models_locals" "''gender'' \<in> set train_models_locals"
  "''age'' \<in> set train_models_locals" "''mask'' \<in> set train_models_locals"
  "''device'' \<in> set train_models_locals" "''age_model'' \<in> set train_models_locals"
  "''mask_model'' \<in> set train_models_locals" "''gender_model'' \<in> set train_models_locals"
  "''val_dataloader'' \<in> set train_models_locals" "''total_val_loss'' \<in> set train_models_locals"
  unfolding train_models_locals_def by simp_all

lemma global_names:
  "''torch'' \<notin> set train_models_locals" "''torch'' \<in> set module_globals"
  "''enumerate'' \<notin> set train_models_locals"
  unfolding train_models_locals_def module_globals_def by simp_all

lemma val_body_fails_at_y_pred:
  assumes "''y_pred'' \<notin> builtins"
    and "{''val_batch'', ''device'', ''age_model'', ''mask_model'', ''gender_model''} \<subseteq> bound"
  shows "exec_block builtins val_body bound = Inl (NameError ''y_pred'')"
proof -
  have b: "''val_batch'' \<in> bound" "''device'' \<in> bound" "''age_model'' \<in> bound"
    "''mask_model'' \<in> bound" "''gender_model'' \<in> bound"
    using assms(2) by simp_all
  show ?thesis
    unfolding val_body_def
    by (simp add: exec_stmt_def load_name_def local_names global_names b y_pred_static assms(1))
qed


lemma undefined_names_static:
  "''y_pred'' \<notin> set train_models_locals \<and> ''y_pred'' \<notin> set module_globals
   \<and> ''val_batch_out'' \<notin> set train_models_locals \<and> ''val_batch_out'' \<notin> set module_globals
   \<and> ''loss_out'' \<notin> set train_models_locals \<and> ''loss_out'' \<notin> set module_globals
   \<and> ''total_val_loss'' \<in> set train_models_locals"
  unfolding train_models_locals_def module_globals_def by simp

lemma total_val_loss_read_first:
  "\<forall>s\<in>set val_body. ''total_val_loss'' \<in> set (snd s) \<longrightarrow> ''total_val_loss'' \<in> set (fst s)"
  unfolding val_body_def by simp

text \<open>
  Claim C7. \<^verbatim>\<open>y_pred\<close>, \<^verbatim>\<open>val_batch_out\<close> and \<^verbatim>\<open>loss_out\<close> are neither local
  variables of \<^verbatim>\<open>train_models\<close> nor globals of the module, and \<^verbatim>\<open>total_val_loss\<close> is
  a local variable that the only statement binding it reads first. So, whatever the
  function has bound before, the validation loop on a loader with at least one batch ends
  in a \<^verbatim>\<open>NameError\<close> (or its subclass) in the first iteration; when the names that
  lines 140--150 read are bound, it is the \<^verbatim>\<open>NameError\<close> for \<^verbatim>\<open>y_pred\<close> of line 152.
\<close>

theorem validation_loop_name_error:
  assumes "''y_pred'' \<notin> builtins" and "0 < n"
  shows "(\<exists>e. val_loop builtins n bound = Inl e \<and> is_name_error e)
    \<and> (''enumerate'' \<in> builtins
         \<and> {''val_dataloader'', ''device'', ''age_model'', ''mask_model'', ''gender_model''} \<subseteq> bound
       \<longrightarrow> val_loop builtins n bound = Inl (NameError ''y_pred''))
    \<and> ''y_pred'' \<notin> set train_models_locals \<and> ''y_pred'' \<notin> set module_globals
    \<and> ''val_batch_out'' \<notin> set train_models_locals \<and> ''val_batch_out'' \<notin> set module_globals
    \<and> ''loss_out'' \<notin> set train_models_locals \<and> ''loss_out'' \<notin> set module_globals
    \<and> ''total_val_loss'' \<in> set train_models_locals
    \<and> (\<forall>s\<in>set val_body. ''total_val_loss'' \<in> set (snd s) \<longrightarrow> ''total_val_loss'' \<in> set (fst s))
    \<and> (''total_val_loss'' \<notin> bound \<longrightarrow>
          load_name builtins bound ''total_val_loss'' = Inl (UnboundLocalError ''total_val_loss''))"
proof -
  from assms(2) obtain m where n: "n = Suc m" by (cases n) auto
  have exact: "val_loop builtins n bound = Inl (NameError ''y_pred'')"
    if h: "''enumerate'' \<in> builtins
         \<and> {''val_dataloader'', ''device'', ''age_model'', ''mask_model'', ''gender_model''} \<subseteq> bound"
  proof -
    have header: "load_names builtins bound [''enumerate'', ''val_dataloader''] = Inr ()"
      using h by (simp add: load_name_def local_names global_names)
    have "{''val_batch'', ''device'', ''age_model'', ''mask_model'', ''gender_model''}
        \<subseteq> bound \<union> {''val_iter'', ''val_batch''}"
      using h by auto
    from val_body_fails_at_y_pred [OF assms(1) this] header show ?thesis
      unfolding val_loop_def n by simp
  qed
  have tvl: "load_name builtins bound ''total_val_loss'' = Inl (UnboundLocalError ''total_val_loss'')"
    if "''total_val_loss'' \<notin> bound"
    using that unfolding load_name_def by (simp add: local_names)
  from val_loop_fails [OF assms] exact undefined_names_static total_val_loss_read_first tvl
  show ?thesis by blast
qed

theorem validation_loop_name_error_witness:
  "''y_pred'' \<notin> {''print'', ''len'', ''enumerate'', ''range''} \<and> (0::nat) < 1
   \<and> val_loop {''print'', ''len'', ''enumerate'', ''range''} 1
        {''args'', ''val_dataloader'', ''device'', ''age_model'', ''mask_model'', ''gender_model'',
         ''epoch'', ''total_val_acc''}
      = Inl (NameError ''y_pred'')"
proof -
  let ?B = "{''print'', ''len'', ''enumerate'', ''range''}"
  let ?bound = "{''args'', ''val_dataloader'', ''device'', ''age_model'', ''mask_model'', ''gender_model'',
         ''epoch'', ''total_val_acc''}"
  have a: "''y_pred'' \<notin> ?B" by simp
  have p: "(0::nat) < 1" by simp
  have h: "''enumerate'' \<in> ?B
     \<and> {''val_dataloader'', ''device'', ''age_model'', ''mask_model'', ''gender_model''} \<subseteq> ?bound"
    by simp
  from validation_loop_name_error [OF a p, of ?bound] h
  have "val_loop ?B 1 ?bound = Inl (NameError ''y_pred'')" by blast
  with a p show ?thesis by blast
qed

section \<open>Checkpoints\<close>

lemma checkpoint_best_val_f1:
  "best_val_f1 (checkpoint tag score st) = max (best_val_f1 st) score"
  unfolding checkpoint_def torch_save_def by simp

lemma checkpoint_disk_best:
  "disk (checkpoint tag score st) BestPth =
     (if score > best_val_f1 st then Some tag else disk st BestPth)"
  unfolding checkpoint_def torch_save_def by simp

lemma checkpoint_disk_last:
  "disk (checkpoint tag score st) LastPth = Some tag"
  unfolding checkpoint_def torch_save_def by simp

lemma checkpoint_saves:
  "saves (checkpoint tag score st) =
     saves st @ (if score > best_val_f1 st then [(BestPth, tag)] else []) @ [(LastPth, tag)]"
  unfolding checkpoint_def torch_save_def by simp

lemma age_epoch_end_facts:
  "best_val_f1 (age_epoch_end e m st) = max (best_val_f1 st) (val_f1 m)"
  "disk (age_epoch_end e m st) BestPth =
     (if val_f1 m > best_val_f1 st then Some e else disk st BestPth)"
  "disk (age_epoch_end e m st) LastPth = Some e"
  "saves (age_epoch_end e m st) =
     saves st @ [] @ (if val_f1 m > best_val_f1 st then [(BestPth, e)] else []) @ [(LastPth, e)]"
  unfolding age_epoch_end_def checkpoint_best_val_f1 checkpoint_disk_best checkpoint_disk_last
    checkpoint_saves
  by (simp_all add: update_trackers_def)

lemma fold_epoch_end_facts:
  "best_val_f1 (fold_epoch_end f e m st) = max (best_val_f1 st) (val_f1 m)"
  "disk (fold_epoch_end f e m st) BestPth =
     (if val_f1 m > best_val_f1 st then Some (f, e) else disk st BestPth)"
  "disk (fold_epoch_end f e m st) LastPth = Some (f, e)"
  "saves (fold_epoch_end f e m st) =
     saves st @ [(EpochPt f e (val_f1 m) (val_loss m), (f, e))]
       @ (if val_f1 m > best_val_f1 st then [(BestPth, (f, e))] else []) @ [(LastPth, (f, e))]"
  unfolding fold_epoch_end_def checkpoint_best_val_f1 checkpoint_disk_best checkpoint_disk_last
    checkpoint_saves
  by (simp_all add: update_trackers_def torch_save_def)


lemma epoch_loop_saves:
  fixes body :: "nat \<Rightarrow> epoch_metrics \<Rightarrow> 't run_state \<Rightarrow> 't run_state"
    and tag :: "nat \<Rightarrow> 't"
    and pre :: "nat \<Rightarrow> epoch_metrics \<Rightarrow> (ckpt_file \<times> 't) list"
  assumes f1: "\<And>e m st. best_val_f1 (body e m st) = max (best_val_f1 st) (val_f1 m)"
    and sv: "\<And>e m st. saves (body e m st) =
        saves st @ pre e m @ (if val_f1 m > best_val_f1 st then [(BestPth, tag e)] else [])
          @ [(LastPth, tag e)]"
    and pre: "\<And>e m t. (BestPth, t) \<notin> set (pre e m)"
    and dl: "\<And>e m st. disk (body e m st) LastPth = Some (tag e)"
  shows "\<exists>new. saves (epoch_loop body e0 ms st) = saves st @ new
     \<and> (\<forall>t. (BestPth, t) \<in> set new \<longrightarrow>
           (\<exists>i<length ms. t = tag (e0 + i) \<and> best_val_f1 st < val_f1 (ms ! i)
              \<and> (\<forall>j<i. val_f1 (ms ! j) < val_f1 (ms ! i))))
     \<and> (\<forall>i<length ms. best_val_f1 st < val_f1 (ms ! i)
              \<and> (\<forall>j<i. val_f1 (ms ! j) < val_f1 (ms ! i))
           \<longrightarrow> (BestPth, tag (e0 + i)) \<in> set new)
     \<and> (\<forall>i<length ms. (LastPth, tag (e0 + i)) \<in> set new)
     \<and> (ms \<noteq> [] \<longrightarrow> disk (epoch_loop body e0 ms st) LastPth = Some (tag (e0 + length ms - 1)))"
proof (induction ms arbitrary: e0 st)
  case Nil
  show ?case by simp
next
  case (Cons m ms)
  let ?b = "best_val_f1 st"
  let ?st1 = "body e0 m st"
  let ?bp = "if val_f1 m > ?b then [(BestPth, tag e0)] else []"
  have b1: "best_val_f1 ?st1 = max ?b (val_f1 m)" by (rule f1)
  from Cons.IH [of "Suc e0" ?st1] obtain new' where
    sv': "saves (epoch_loop body (Suc e0) ms ?st1) = saves ?st1 @ new'"
    and only: "\<And>t. (BestPth, t) \<in> set new' \<Longrightarrow>
           \<exists>i<length ms. t = tag (Suc e0 + i) \<and> max ?b (val_f1 m) < val_f1 (ms ! i)
              \<and> (\<forall>j<i. val_f1 (ms ! j) < val_f1 (ms ! i))"
    and every: "\<And>i. i < length ms \<Longrightarrow> max ?b (val_f1 m) < val_f1 (ms ! i)
              \<Longrightarrow> (\<forall>j<i. val_f1 (ms ! j) < val_f1 (ms ! i))
           \<Longrightarrow> (BestPth, tag (Suc e0 + i)) \<in> set new'"
    and last': "\<And>i. i < length ms \<Longrightarrow> (LastPth, tag (Suc e0 + i)) \<in> set new'"
    and disk': "ms \<noteq> [] \<Longrightarrow>
        disk (epoch_loop body (Suc e0) ms ?st1) LastPth = Some (tag (Suc e0 + length ms - 1))"
    unfolding b1 by blast
  let ?new = "pre e0 m @ ?bp @ [(LastPth, tag e0)] @ new'"
  have s: "saves (epoch_loop body e0 (m # ms) st) = saves st @ ?new"
    using sv' sv [of e0 m st] by simp
  have p1: "\<exists>i<length (m # ms). t = tag (e0 + i) \<and> ?b < val_f1 ((m # ms) ! i)
              \<and> (\<forall>j<i. val_f1 ((m # ms) ! j) < val_f1 ((m # ms) ! i))"
    if t: "(BestPth, t) \<in> set ?new" for t
  proof -
    from t pre [of t e0 m] have "(BestPth, t) \<in> set ?bp \<or> (BestPth, t) \<in> set new'"
      by auto
    then show ?thesis
    proof
      assume "(BestPth, t) \<in> set ?bp"
      then have "?b < val_f1 m" and "t = tag e0"
        by (auto split: if_splits)
      then show ?thesis by (intro exI [of _ 0]) simp
    next
      assume "(BestPth, t) \<in> set new'"
      from only [OF this] obtain i where i: "i < length ms" and ti: "t = tag (Suc e0 + i)"
        and gt: "max ?b (val_f1 m) < val_f1 (ms ! i)"
        and first: "\<forall>j<i. val_f1 (ms ! j) < val_f1 (ms ! i)"
        by blast
      have "\<forall>j<Suc i. val_f1 ((m # ms) ! j) < val_f1 ((m # ms) ! Suc i)"
      proof (intro allI impI)
        fix j assume "j < Suc i"
        then show "val_f1 ((m # ms) ! j) < val_f1 ((m # ms) ! Suc i)"
          using gt first by (cases j) auto
      qed
      with i ti gt show ?thesis by (intro exI [of _ "Suc i"]) simp
    qed
  qed
  have p2: "(BestPth, tag (e0 + i)) \<in> set ?new"
    if i: "i < length (m # ms)" and gt: "?b < val_f1 ((m # ms) ! i)"
      and first: "\<forall>j<i. val_f1 ((m # ms) ! j) < val_f1 ((m # ms) ! i)" for i
  proof (cases i)
    case 0
    with gt show ?thesis by simp
  next
    case (Suc i')
    have "val_f1 m < val_f1 (ms ! i')"
      using first Suc by (auto dest: spec [of _ 0])
    with gt Suc have g: "max ?b (val_f1 m) < val_f1 (ms ! i')" by simp
    have "\<forall>j<i'. val_f1 (ms ! j) < val_f1 (ms ! i')"
    proof (intro allI impI)
      fix j assume "j < i'"
      then have "Suc j < i" using Suc by simp
      with first have "val_f1 ((m # ms) ! Suc j) < val_f1 ((m # ms) ! i)" by blast
      then show "val_f1 (ms ! j) < val_f1 (ms ! i')" using Suc by simp
    qed
    from every [OF _ g this] i Suc show ?thesis by simp
  qed
  have p3: "(LastPth, tag (e0 + i)) \<in> set ?new" if "i < length (m # ms)" for i
    using that last' by (cases i) auto
  have p4: "disk (epoch_loop body e0 (m # ms) st) LastPth = Some (tag (e0 + length (m # ms) - 1))"
  proof (cases "ms = []")
    case True
    then show ?thesis by (simp add: dl)
  next
    case False
    from disk' [OF this] show ?thesis by simp
  qed
  from s p1 p2 p3 p4 show ?case by blast
qed


lemma saves_init_trackers: "saves (init_trackers st) = saves st"
  unfolding init_trackers_def by simp

lemma best_init_trackers: "best_val_f1 (init_trackers st) = 0"
  unfolding init_trackers_def by simp

lemma disk_init_trackers: "disk (init_trackers st) = disk st"
  unfolding init_trackers_def by simp

text \<open>
  The state after the first epochs of a run is the state of the run over those epochs
  alone: the loop over a longer list continues from it.
\<close>

lemma epoch_loop_append:
  "epoch_loop body e0 (ms @ ms') st = epoch_loop body (e0 + length ms) ms' (epoch_loop body e0 ms st)"
  by (induction ms arbitrary: e0 st) simp_all


lemma age_loop_saves:
  assumes "best_val_f1 st = 0"
  shows "\<exists>new. saves (epoch_loop age_epoch_end 0 ms st) = saves st @ new
     \<and> (\<forall>e. (BestPth, e) \<in> set new \<longrightarrow> improves ms e)
     \<and> (\<forall>e. improves ms e \<longrightarrow> (BestPth, e) \<in> set new)
     \<and> (\<forall>e<length ms. (LastPth, e) \<in> set new)
     \<and> (ms \<noteq> [] \<longrightarrow> disk (epoch_loop age_epoch_end 0 ms st) LastPth = Some (length ms - 1))"
proof -
  have pre: "(BestPth, t) \<notin> set ((\<lambda>e m. []) e m)" for t :: nat and e :: nat and m :: epoch_metrics
    by simp
  from epoch_loop_saves [of age_epoch_end "\<lambda>e m. []" "\<lambda>e. e" 0 ms st,
      OF age_epoch_end_facts(1) age_epoch_end_facts(4) pre age_epoch_end_facts(3)]
  obtain new where s: "saves (epoch_loop age_epoch_end 0 ms st) = saves st @ new"
    and only: "\<And>t. (BestPth, t) \<in> set new \<Longrightarrow>
           \<exists>i<length ms. t = 0 + i \<and> best_val_f1 st < val_f1 (ms ! i)
              \<and> (\<forall>j<i. val_f1 (ms ! j) < val_f1 (ms ! i))"
    and every: "\<And>i. i < length ms \<Longrightarrow> best_val_f1 st < val_f1 (ms ! i)
              \<and> (\<forall>j<i. val_f1 (ms ! j) < val_f1 (ms ! i))
           \<Longrightarrow> (BestPth, 0 + i) \<in> set new"
    and last: "\<And>i. i < length ms \<Longrightarrow> (LastPth, 0 + i) \<in> set new"
    and dsk: "ms \<noteq> [] \<Longrightarrow> disk (epoch_loop age_epoch_end 0 ms st) LastPth = Some (0 + length ms - 1)"
    by blast
  have c1: "\<forall>e. (BestPth, e) \<in> set new \<longrightarrow> improves ms e"
  proof (intro allI impI)
    fix e assume "(BestPth, e) \<in> set new"
    from only [OF this] show "improves ms e"
      unfolding assms improves_def by simp
  qed
  have c2: "\<forall>e. improves ms e \<longrightarrow> (BestPth, e) \<in> set new"
    using every unfolding assms improves_def by simp
  have c3: "\<forall>e<length ms. (LastPth, e) \<in> set new"
    using last by simp
  have c4: "ms \<noteq> [] \<longrightarrow> disk (epoch_loop age_epoch_end 0 ms st) LastPth = Some (length ms - 1)"
    using dsk by simp
  from s c1 c2 c3 c4 show ?thesis by blast
qed

text \<open>
  The epoch loop of one fold: every \<^verbatim>\<open>best.pth\<close> it saves carries the weights of an
  epoch of this fold.
\<close>

lemma fold_loop_saves:
  assumes "best_val_f1 st = 0"
  shows "\<exists>new. saves (epoch_loop (fold_epoch_end f) 0 ms st) = saves st @ new
     \<and> (\<forall>f' e. (BestPth, (f', e)) \<in> set new \<longrightarrow> f' = f \<and> improves ms e)
     \<and> (\<forall>e. improves ms e \<longrightarrow> (BestPth, (f, e)) \<in> set new)
     \<and> (\<forall>e<length ms. (LastPth, (f, e)) \<in> set new)
     \<and> (ms \<noteq> [] \<longrightarrow> disk (epoch_loop (fold_epoch_end f) 0 ms st) LastPth = Some (f, length ms - 1))"
proof -
  let ?pre = "\<lambda>e m. [(EpochPt f e (val_f1 m) (val_loss m), (f, e))]"
  have pre: "(BestPth, t) \<notin> set (?pre e m)" for t e m
    by simp
  from epoch_loop_saves [of "fold_epoch_end f" ?pre "\<lambda>e. (f, e)" 0 ms st,
      OF fold_epoch_end_facts(1) fold_epoch_end_facts(4) pre fold_epoch_end_facts(3)]
  obtain new where s: "saves (epoch_loop (fold_epoch_end f) 0 ms st) = saves st @ new"
    and only: "\<And>t. (BestPth, t) \<in> set new \<Longrightarrow>
           \<exists>i<length ms. t = (f, 0 + i) \<and> best_val_f1 st < val_f1 (ms ! i)
              \<and> (\<forall>j<i. val_f1 (ms ! j) < val_f1 (ms ! i))"
    and every: "\<And>i. i < length ms \<Longrightarrow> best_val_f1 st < val_f1 (ms ! i)
              \<and> (\<forall>j<i. val_f1 (ms ! j) < val_f1 (ms ! i))
           \<Longrightarrow> (BestPth, (f, 0 + i)) \<in> set new"
    and last: "\<And>i. i < length ms \<Longrightarrow> (LastPth, (f, 0 + i)) \<in> set new"
    and dsk: "ms \<noteq> [] \<Longrightarrow>
        disk (epoch_loop (fold_epoch_end f) 0 ms st) LastPth = Some (f, 0 + length ms - 1)"
    by blast
  have c1: "\<forall>f' e. (BestPth, (f', e)) \<in> set new \<longrightarrow> f' = f \<and> improves ms e"
  proof (intro allI impI)
    fix f' e assume "(BestPth, (f', e)) \<in> set new"
    from only [OF this] show "f' = f \<and> improves ms e"
      unfolding assms improves_def by simp
  qed
  have c2: "\<forall>e. improves ms e \<longrightarrow> (BestPth, (f, e)) \<in> set new"
    using every unfolding assms improves_def by simp
  have c3: "\<forall>e<length ms. (LastPth, (f, e)) \<in> set new"
    using last by simp
  have c4: "ms \<noteq> [] \<longrightarrow>
      disk (epoch_loop (fold_epoch_end f) 0 ms st) LastPth = Some (f, length ms - 1)"
    using dsk by simp
  from s c1 c2 c3 c4 show ?thesis by blast
qed

section \<open>Checkpoints across the folds\<close>

lemma fold_epochs_best:
  "((\<forall>m\<in>set ms. val_f1 m \<le> best_val_f1 st) \<longrightarrow>
       disk (epoch_loop (fold_epoch_end f) start ms st) BestPth = disk st BestPth
       \<and> best_val_f1 (epoch_loop (fold_epoch_end f) start ms st) = best_val_f1 st)
   \<and> ((\<exists>m\<in>set ms. best_val_f1 st < val_f1 m) \<longrightarrow>
       (\<exists>i<length ms. disk (epoch_loop (fold_epoch_end f) start ms st) BestPth = Some (f, start + i)
          \<and> best_val_f1 (epoch_loop (fold_epoch_end f) start ms st) = val_f1 (ms ! i)
          \<and> best_val_f1 st < val_f1 (ms ! i)
          \<and> (\<forall>j<length ms. val_f1 (ms ! j) \<le> val_f1 (ms ! i))
          \<and> (\<forall>j<i. val_f1 (ms ! j) < val_f1 (ms ! i))))"
proof (induction ms arbitrary: start st)
  case Nil
  show ?case by simp
next
  case (Cons m ms)
  let ?b = "best_val_f1 st"
  let ?st1 = "fold_epoch_end f start m st"
  let ?st' = "epoch_loop (fold_epoch_end f) (Suc start) ms ?st1"
  have b1: "best_val_f1 ?st1 = max ?b (val_f1 m)"
    by (rule fold_epoch_end_facts(1))
  have d1: "disk ?st1 BestPth = (if val_f1 m > ?b then Some (f, start) else disk st BestPth)"
    by (rule fold_epoch_end_facts(2))
  have run: "epoch_loop (fold_epoch_end f) start (m # ms) st = ?st'" by simp
  note IH = Cons.IH [where start = "Suc start" and st = ?st1, unfolded b1]
  have low: "disk ?st' BestPth = disk st BestPth \<and> best_val_f1 ?st' = ?b"
    if all: "\<forall>x\<in>set (m # ms). val_f1 x \<le> ?b"
  proof -
    from all have m: "val_f1 m \<le> ?b" by simp
    then have mx: "max ?b (val_f1 m) = ?b" by simp
    from all have "\<forall>x\<in>set ms. val_f1 x \<le> max ?b (val_f1 m)" unfolding mx by simp
    with IH have "disk ?st' BestPth = disk ?st1 BestPth \<and> best_val_f1 ?st' = max ?b (val_f1 m)"
      by blast
    with m d1 mx show ?thesis by simp
  qed
  have high: "\<exists>i<length (m # ms). disk ?st' BestPth = Some (f, start + i)
          \<and> best_val_f1 ?st' = val_f1 ((m # ms) ! i)
          \<and> ?b < val_f1 ((m # ms) ! i)
          \<and> (\<forall>j<length (m # ms). val_f1 ((m # ms) ! j) \<le> val_f1 ((m # ms) ! i))
          \<and> (\<forall>j<i. val_f1 ((m # ms) ! j) < val_f1 ((m # ms) ! i))"
    if ex: "\<exists>x\<in>set (m # ms). ?b < val_f1 x"
  proof (cases "\<exists>x\<in>set ms. max ?b (val_f1 m) < val_f1 x")
    case True
    with IH obtain i where i: "i < length ms"
      and dk: "disk ?st' BestPth = Some (f, Suc start + i)"
      and bv: "best_val_f1 ?st' = val_f1 (ms ! i)"
      and gt: "max ?b (val_f1 m) < val_f1 (ms ! i)"
      and top: "\<forall>j<length ms. val_f1 (ms ! j) \<le> val_f1 (ms ! i)"
      and first: "\<forall>j<i. val_f1 (ms ! j) < val_f1 (ms ! i)"
      by blast
    have top': "\<forall>j<length (m # ms). val_f1 ((m # ms) ! j) \<le> val_f1 ((m # ms) ! Suc i)"
    proof (intro allI impI)
      fix j assume "j < length (m # ms)"
      then show "val_f1 ((m # ms) ! j) \<le> val_f1 ((m # ms) ! Suc i)"
        using gt top by (cases j) auto
    qed
    have first': "\<forall>j<Suc i. val_f1 ((m # ms) ! j) < val_f1 ((m # ms) ! Suc i)"
    proof (intro allI impI)
      fix j assume "j < Suc i"
      then show "val_f1 ((m # ms) ! j) < val_f1 ((m # ms) ! Suc i)"
        using gt first by (cases j) auto
    qed
    from i dk bv gt top' first' show ?thesis
      by (intro exI [of _ "Suc i"]) simp
  next
    case False
    then have all: "\<forall>x\<in>set ms. val_f1 x \<le> max ?b (val_f1 m)" by auto
    with IH have keep: "disk ?st' BestPth = disk ?st1 BestPth"
      and bv: "best_val_f1 ?st' = max ?b (val_f1 m)"
      by blast+
    have m: "?b < val_f1 m"
    proof (rule ccontr)
      assume "\<not> ?b < val_f1 m"
      then have "max ?b (val_f1 m) = ?b" by simp
      with all ex \<open>\<not> ?b < val_f1 m\<close> show False by auto
    qed
    then have mx: "max ?b (val_f1 m) = val_f1 m" by simp
    have top': "\<forall>j<length (m # ms). val_f1 ((m # ms) ! j) \<le> val_f1 ((m # ms) ! 0)"
    proof (intro allI impI)
      fix j assume j: "j < length (m # ms)"
      show "val_f1 ((m # ms) ! j) \<le> val_f1 ((m # ms) ! 0)"
      proof (cases j)
        case 0
        then show ?thesis by simp
      next
        case (Suc j')
        with j have "ms ! j' \<in> set ms" by simp
        with all mx have "val_f1 (ms ! j') \<le> val_f1 m" by auto
        with Suc show ?thesis by simp
      qed
    qed
    from keep bv m mx d1 top' show ?thesis
      by (intro exI [of _ 0]) simp
  qed
  from low high show ?case unfolding run by blast
qed


lemma fold_loop_snoc:
  "fold_loop f0 (fs @ [ms]) st =
     epoch_loop (fold_epoch_end (f0 + length fs)) 0 ms (init_trackers (fold_loop f0 fs st))"
  by (induction fs arbitrary: f0 st) simp_all

lemma fold_step_best:
  "((\<exists>m\<in>set ms. 0 < val_f1 m) \<longrightarrow>
       (\<exists>e. fold_best ms e \<and> disk (fold_loop f0 (fs @ [ms]) st) BestPth = Some (f0 + length fs, e)))
   \<and> ((\<forall>m\<in>set ms. val_f1 m \<le> 0) \<longrightarrow>
       disk (fold_loop f0 (fs @ [ms]) st) BestPth = disk (fold_loop f0 fs st) BestPth)"
proof -
  let ?st0 = "init_trackers (fold_loop f0 fs st)"
  let ?f = "f0 + length fs"
  note B = fold_epochs_best [of ms ?st0 ?f 0, unfolded best_init_trackers disk_init_trackers]
  have hi: "\<exists>e. fold_best ms e \<and> disk (fold_loop f0 (fs @ [ms]) st) BestPth = Some (?f, e)"
    if "\<exists>m\<in>set ms. 0 < val_f1 m"
  proof -
    from B that obtain i where "i < length ms"
      and "disk (epoch_loop (fold_epoch_end ?f) 0 ms ?st0) BestPth = Some (?f, 0 + i)"
      and "0 < val_f1 (ms ! i)"
      and "\<forall>j<length ms. val_f1 (ms ! j) \<le> val_f1 (ms ! i)"
      and "\<forall>j<i. val_f1 (ms ! j) < val_f1 (ms ! i)"
      by blast
    then have "fold_best ms i \<and> disk (fold_loop f0 (fs @ [ms]) st) BestPth = Some (?f, i)"
      unfolding fold_best_def fold_loop_snoc by simp
    then show ?thesis by blast
  qed
  have lo: "disk (fold_loop f0 (fs @ [ms]) st) BestPth = disk (fold_loop f0 fs st) BestPth"
    if "\<forall>m\<in>set ms. val_f1 m \<le> 0"
    using B that unfolding fold_loop_snoc by blast
  from hi lo show ?thesis by blast
qed

lemma init_trackers_overrides:
  "init_trackers (st\<lparr>best_val_acc := a, best_val_f1 := b, best_val_loss := c\<rparr>) = init_trackers st"
  unfolding init_trackers_def by simp

lemma five_folds_split:
  assumes "length folds = 5"
  shows "take 5 folds = take 4 folds @ [folds ! 4]"
proof -
  have "take (Suc 4) folds = take 4 folds @ [folds ! 4]"
    using assms by (intro take_Suc_conv_app_nth) simp
  then show ?thesis by simp
qed

text \<open>
  Claim C9, as amended. The fold loop re-initialises the three trackers before every fold
  (whatever they held, the fold runs the same), and all folds save to the same
  \<^verbatim>\<open>best.pth\<close>. A fold with an epoch of positive F1 leaves its own best epoch in
  \<^verbatim>\<open>best.pth\<close>, whatever the folds before it scored; a fold whose F1 is never
  positive leaves \<^verbatim>\<open>best.pth\<close> as it found it. So after the five folds
  \<^verbatim>\<open>best.pth\<close> holds the best epoch of the final fold when that fold had a positive
  F1, and what the first four folds left otherwise.
\<close>

theorem best_pth_is_from_last_scoring_fold:
  assumes "length folds = 5"
  shows "((\<exists>m\<in>set (folds ! 4). 0 < val_f1 m) \<longrightarrow>
       (\<exists>e. fold_best (folds ! 4) e \<and> disk (train_5fold folds) BestPth = Some (4, e)))
   \<and> ((\<forall>m\<in>set (folds ! 4). val_f1 m \<le> 0) \<longrightarrow>
       disk (train_5fold folds) BestPth = disk (fold_loop 0 (take 4 folds) fresh_run) BestPth)
   \<and> ((\<exists>m\<in>set ms. 0 < val_f1 m) \<longrightarrow>
       (\<exists>e. fold_best ms e \<and> disk (fold_loop f0 (fs @ [ms]) st) BestPth = Some (f0 + length fs, e)))
   \<and> ((\<forall>m\<in>set ms. val_f1 m \<le> 0) \<longrightarrow>
       disk (fold_loop f0 (fs @ [ms]) st) BestPth = disk (fold_loop f0 fs st) BestPth)
   \<and> fold_loop f0 (ms # rest) (st\<lparr>best_val_acc := a, best_val_f1 := b, best_val_loss := c\<rparr>)
       = fold_loop f0 (ms # rest) st"
proof -
  have len4: "length (take 4 folds) = 4" using assms by simp
  have run: "train_5fold folds = fold_loop 0 (take 4 folds @ [folds ! 4]) fresh_run"
    unfolding train_5fold_def five_folds_split [OF assms] ..
  note last = fold_step_best [of "folds ! 4" 0 "take 4 folds" fresh_run, folded run, unfolded len4]
  have c1: "(\<exists>m\<in>set (folds ! 4). 0 < val_f1 m) \<longrightarrow>
       (\<exists>e. fold_best (folds ! 4) e \<and> disk (train_5fold folds) BestPth = Some (4, e))"
    using last by simp
  have c2: "(\<forall>m\<in>set (folds ! 4). val_f1 m \<le> 0) \<longrightarrow>
       disk (train_5fold folds) BestPth = disk (fold_loop 0 (take 4 folds) fresh_run) BestPth"
    using last by simp
  note step = fold_step_best [of ms f0 fs st]
  have c5: "fold_loop f0 (ms # rest) (st\<lparr>best_val_acc := a, best_val_f1 := b, best_val_loss := c\<rparr>)
       = fold_loop f0 (ms # rest) st"
    by (simp add: init_trackers_overrides)
  show ?thesis
    using c1 c2 step [THEN conjunct1] step [THEN conjunct2] c5 by - (intro conjI; assumption)
qed

text \<open>
  Claim C9 as stated has \<^verbatim>\<open>best.pth\<close> hold the best model of the final fold after
  every run. In a run of one epoch per fold whose final fold scores an F1 of 0,
  \<^verbatim>\<open>best.pth\<close> still holds the weights of fold 3, while \<^verbatim>\<open>last.pth\<close> holds those of
  the final fold.
\<close>

theorem final_fold_without_score_keeps_best_pth:
  "disk (train_5fold
      [[\<lparr>val_f1 = 1 / 2, val_loss = 1, val_acc = 1 / 2\<rparr>],
       [\<lparr>val_f1 = 1 / 2, val_loss = 1, val_acc = 1 / 2\<rparr>],
       [\<lparr>val_f1 = 1 / 2, val_loss = 1, val_acc = 1 / 2\<rparr>],
       [\<lparr>val_f1 = 1 / 2, val_loss = 1, val_acc = 1 / 2\<rparr>],
       [\<lparr>val_f1 = 0, val_loss = 3, val_acc = 0\<rparr>]]) BestPth = Some (3, 0)
   \<and> disk (train_5fold
      [[\<lparr>val_f1 = 1 / 2, val_loss = 1, val_acc = 1 / 2\<rparr>],
       [\<lparr>val_f1 = 1 / 2, val_loss = 1, val_acc = 1 / 2\<rparr>],
       [\<lparr>val_f1 = 1 / 2, val_loss = 1, val_acc = 1 / 2\<rparr>],
       [\<lparr>val_f1 = 1 / 2, val_loss = 1, val_acc = 1 / 2\<rparr>],
       [\<lparr>val_f1 = 0, val_loss = 3, val_acc = 0\<rparr>]]) LastPth = Some (4, 0)"
  unfolding train_5fold_def
  by (simp add: fold_epoch_end_def checkpoint_def torch_save_def update_trackers_def
      init_trackers_def fresh_run_def)


theorem best_pth_is_from_last_scoring_fold_witness:
  "length
      [[\<lparr>val_f1 = 9 / 10, val_loss = 1, val_acc = 1 / 2\<rparr>],
       [\<lparr>val_f1 = 1 / 5, val_loss = 1, val_acc = 1 / 2\<rparr>],
       [\<lparr>val_f1 = 1 / 5, val_loss = 1, val_acc = 1 / 2\<rparr>],
       [\<lparr>val_f1 = 1 / 5, val_loss = 1, val_acc = 1 / 2\<rparr>],
       [\<lparr>val_f1 = 3 / 10, val_loss = 1, val_acc = 1 / 2\<rparr>,
        \<lparr>val_f1 = 3 / 10, val_loss = 1, val_acc = 1 / 2\<rparr>]] = 5
   \<and> disk (train_5fold
      [[\<lparr>val_f1 = 9 / 10, val_loss = 1, val_acc = 1 / 2\<rparr>],
       [\<lparr>val_f1 = 1 / 5, val_loss = 1, val_acc = 1 / 2\<rparr>],
       [\<lparr>val_f1 = 1 / 5, val_loss = 1, val_acc = 1 / 2\<rparr>],
       [\<lparr>val_f1 = 1 / 5, val_loss = 1, val_acc = 1 / 2\<rparr>],
       [\<lparr>val_f1 = 3 / 10, val_loss = 1, val_acc = 1 / 2\<rparr>,
        \<lparr>val_f1 = 3 / 10, val_loss = 1, val_acc = 1 / 2\<rparr>]]) BestPth = Some (4, 0)"
proof -
  let ?last = "[\<lparr>val_f1 = 3 / 10, val_loss = 1, val_acc = 1 / 2\<rparr>,
        \<lparr>val_f1 = 3 / 10, val_loss = 1, val_acc = 1 / 2\<rparr>]"
  let ?F = "[[\<lparr>val_f1 = 9 / 10, val_loss = 1, val_acc = 1 / 2\<rparr>],
       [\<lparr>val_f1 = 1 / 5, val_loss = 1, val_acc = 1 / 2\<rparr>],
       [\<lparr>val_f1 = 1 / 5, val_loss = 1, val_acc = 1 / 2\<rparr>],
       [\<lparr>val_f1 = 1 / 5, val_loss = 1, val_acc = 1 / 2\<rparr>],
       ?last]"
  have len: "length ?F = 5" by simp
  have l4: "?F ! 4 = ?last" by simp
  have pos: "\<exists>m\<in>set (?F ! 4). 0 < val_f1 m" unfolding l4 by simp
  note t = best_pth_is_from_last_scoring_fold [OF len, THEN conjunct1, rule_format, OF pos]
  then obtain e where fb: "fold_best ?last e"
    and dk: "disk (train_5fold ?F) BestPth = Some (4, e)"
    unfolding l4 by blast
  have "e = 0"
  proof (rule ccontr)
    assume "e \<noteq> 0"
    with fb have "val_f1 (?last ! 0) < val_f1 (?last ! e)" and "e < length ?last"
      unfolding fold_best_def by auto
    then have "e = 1" using \<open>e \<noteq> 0\<close> by simp
    with \<open>val_f1 (?last ! 0) < val_f1 (?last ! e)\<close> show False by simp
  qed
  with dk len show ?thesis by simp
qed

section \<open>Checkpoints of a whole run\<close>

text \<open>
  The calls of \<^verbatim>\<open>torch.save\<close> of a fold loop: \<^verbatim>\<open>best.pth\<close> is saved exactly in the
  epochs that improve on the earlier epochs of their own fold, \<^verbatim>\<open>last.pth\<close> in every
  epoch of every fold.
\<close>

lemma fold_run_saves:
  "\<exists>new. saves (fold_loop 0 fs st) = saves st @ new
     \<and> (\<forall>f e. (BestPth, (f, e)) \<in> set new \<longrightarrow> f < length fs \<and> improves (fs ! f) e)
     \<and> (\<forall>f<length fs. \<forall>e. improves (fs ! f) e \<longrightarrow> (BestPth, (f, e)) \<in> set new)
     \<and> (\<forall>f<length fs. \<forall>e<length (fs ! f). (LastPth, (f, e)) \<in> set new)"
proof (induction fs rule: rev_induct)
  case Nil
  show ?case by simp
next
  case (snoc ms fs)
  let ?n = "length fs"
  let ?st1 = "init_trackers (fold_loop 0 fs st)"
  from snoc obtain new1 where s1: "saves (fold_loop 0 fs st) = saves st @ new1"
    and o1: "\<And>f e. (BestPth, (f, e)) \<in> set new1 \<Longrightarrow> f < ?n \<and> improves (fs ! f) e"
    and e1: "\<And>f e. f < ?n \<Longrightarrow> improves (fs ! f) e \<Longrightarrow> (BestPth, (f, e)) \<in> set new1"
    and l1: "\<And>f e. f < ?n \<Longrightarrow> e < length (fs ! f) \<Longrightarrow> (LastPth, (f, e)) \<in> set new1"
    by blast
  from fold_loop_saves [OF best_init_trackers [of "fold_loop 0 fs st"], where f = ?n and ms = ms]
  obtain new2 where s2: "saves (epoch_loop (fold_epoch_end ?n) 0 ms ?st1) = saves ?st1 @ new2"
    and o2: "\<And>f e. (BestPth, (f, e)) \<in> set new2 \<Longrightarrow> f = ?n \<and> improves ms e"
    and e2: "\<And>e. improves ms e \<Longrightarrow> (BestPth, (?n, e)) \<in> set new2"
    and l2: "\<And>e. e < length ms \<Longrightarrow> (LastPth, (?n, e)) \<in> set new2"
    by blast
  have run: "fold_loop 0 (fs @ [ms]) st = epoch_loop (fold_epoch_end ?n) 0 ms ?st1"
    using fold_loop_snoc [of 0 fs ms st] by simp
  have s: "saves (fold_loop 0 (fs @ [ms]) st) = saves st @ (new1 @ new2)"
    unfolding run s2 saves_init_trackers s1 by simp
  have old: "(fs @ [ms]) ! f = fs ! f" if "f < ?n" for f
    using that by (simp add: nth_append)
  have cur: "(fs @ [ms]) ! ?n = ms"
    by simp
  have p1: "f < length (fs @ [ms]) \<and> improves ((fs @ [ms]) ! f) e"
    if "(BestPth, (f, e)) \<in> set (new1 @ new2)" for f e
  proof -
    from that have "(BestPth, (f, e)) \<in> set new1 \<or> (BestPth, (f, e)) \<in> set new2"
      by simp
    then show ?thesis
    proof
      assume "(BestPth, (f, e)) \<in> set new1"
      from o1 [OF this] show ?thesis by (simp add: old)
    next
      assume "(BestPth, (f, e)) \<in> set new2"
      from o2 [OF this] show ?thesis by (simp add: cur)
    qed
  qed
  have p2: "(BestPth, (f, e)) \<in> set (new1 @ new2)"
    if f: "f < length (fs @ [ms])" and imp: "improves ((fs @ [ms]) ! f) e" for f e
  proof (cases "f < ?n")
    case True
    with imp have "improves (fs ! f) e" by (simp add: old)
    from e1 [OF True this] show ?thesis by simp
  next
    case False
    with f have eq: "f = ?n" by simp
    with imp have "improves ms e" by (simp add: cur)
    from e2 [OF this] show ?thesis unfolding eq by simp
  qed
  have p3: "(LastPth, (f, e)) \<in> set (new1 @ new2)"
    if f: "f < length (fs @ [ms])" and e: "e < length ((fs @ [ms]) ! f)" for f e
  proof (cases "f < ?n")
    case True
    with e have "e < length (fs ! f)" by (simp add: old)
    from l1 [OF True this] show ?thesis by simp
  next
    case False
    with f have eq: "f = ?n" by simp
    with e have "e < length ms" by (simp add: cur)
    from l2 [OF this] show ?thesis unfolding eq by simp
  qed
  have c1: "\<forall>f e. (BestPth, (f, e)) \<in> set (new1 @ new2) \<longrightarrow>
      f < length (fs @ [ms]) \<and> improves ((fs @ [ms]) ! f) e"
    using p1 by (intro allI impI)
  have c2: "\<forall>f<length (fs @ [ms]). \<forall>e. improves ((fs @ [ms]) ! f) e \<longrightarrow>
      (BestPth, (f, e)) \<in> set (new1 @ new2)"
    using p2 by (intro allI impI)
  have c3: "\<forall>f<length (fs @ [ms]). \<forall>e<length ((fs @ [ms]) ! f).
      (LastPth, (f, e)) \<in> set (new1 @ new2)"
    using p3 by (intro allI impI)
  from s c1 c2 c3 show ?case
    by (intro exI [of _ "new1 @ new2"] conjI)
qed

text \<open>After \<open>k\<close> epochs of fold \<open>f\<close>, \<^verbatim>\<open>last.pth\<close> holds the weights of epoch \<open>k - 1\<close> of that fold.\<close>

lemma fold_run_last:
  assumes "f < length folds" and "0 < k" and "k \<le> length (folds ! f)"
  shows "disk (fold_loop 0 (take f folds @ [take k (folds ! f)]) st) LastPth = Some (f, k - 1)"
proof -
  let ?st1 = "init_trackers (fold_loop 0 (take f folds) st)"
  have lf: "length (take f folds) = f" using assms(1) by simp
  have ne: "take k (folds ! f) \<noteq> []" and len: "length (take k (folds ! f)) = k"
    using assms(2,3) by auto
  have run: "fold_loop 0 (take f folds @ [take k (folds ! f)]) st =
      epoch_loop (fold_epoch_end f) 0 (take k (folds ! f)) ?st1"
    using fold_loop_snoc [of 0 "take f folds" "take k (folds ! f)" st] unfolding lf by simp
  from fold_loop_saves [OF best_init_trackers [of "fold_loop 0 (take f folds) st"],
      where f = f and ms = "take k (folds ! f)"] ne
  have "disk (epoch_loop (fold_epoch_end f) 0 (take k (folds ! f)) ?st1) LastPth =
      Some (f, length (take k (folds ! f)) - 1)"
    by blast
  then show ?thesis unfolding run len .
qed

text \<open>
  Claim C4, as amended. \<^verbatim>\<open>best.pth\<close> is saved in an epoch exactly when the F1 of that
  epoch is positive and strictly greater than the F1 of every earlier epoch of the same epoch
  loop: the whole run in \<^verbatim>\<open>train_age.py\<close>, the current fold in \<^verbatim>\<open>train_5fold.py\<close>,
  whose folds all save to one \<^verbatim>\<open>best.pth\<close> and restart \<^verbatim>\<open>best_val_f1\<close> at 0, so that
  the F1 of the earlier folds does not count. \<^verbatim>\<open>last.pth\<close> is saved in every epoch (of
  every fold), and after \<open>k\<close> epochs (of fold \<open>f\<close>) it holds the weights of epoch \<open>k - 1\<close>
  (of fold \<open>f\<close>), the last one completed; after the five folds, those of the last epoch of
  fold 4.
\<close>

theorem checkpoint_discipline:
  assumes "length folds = 5"
  shows "(\<forall>e. ((BestPth, e) \<in> set (saves (train_age ms))) = improves ms e)
   \<and> (\<forall>e<length ms. (LastPth, e) \<in> set (saves (train_age ms)))
   \<and> (\<forall>k. 0 < k \<and> k \<le> length ms \<longrightarrow> disk (train_age (take k ms)) LastPth = Some (k - 1))
   \<and> (\<forall>f e. ((BestPth, (f, e)) \<in> set (saves (train_5fold folds)))
         = (f < 5 \<and> improves (folds ! f) e))
   \<and> (\<forall>f<5. \<forall>e<length (folds ! f). (LastPth, (f, e)) \<in> set (saves (train_5fold folds)))
   \<and> (\<forall>f<5. \<forall>k. 0 < k \<and> k \<le> length (folds ! f) \<longrightarrow>
         disk (fold_loop 0 (take f folds @ [take k (folds ! f)]) fresh_run) LastPth = Some (f, k - 1))
   \<and> (folds ! 4 \<noteq> [] \<longrightarrow>
         disk (train_5fold folds) LastPth = Some (4, length (folds ! 4) - 1))"
proof -
  let ?a0 = "init_trackers (fresh_run :: nat run_state)"
  have s0: "saves ?a0 = []"
    unfolding init_trackers_def fresh_run_def by simp
  have bz: "best_val_f1 ?a0 = 0"
    by (rule best_init_trackers)
  from age_loop_saves [OF bz, where ms = ms] obtain anew
    where anew: "saves (train_age ms) = saves ?a0 @ anew"
    and a1': "\<forall>e. (BestPth, e) \<in> set anew \<longrightarrow> improves ms e"
    and a2': "\<forall>e. improves ms e \<longrightarrow> (BestPth, e) \<in> set anew"
    and a3': "\<forall>e<length ms. (LastPth, e) \<in> set anew"
    unfolding train_age_def by blast
  have an: "saves (train_age ms) = anew"
    unfolding anew s0 by simp
  have a1: "\<forall>e. ((BestPth, e) \<in> set (saves (train_age ms))) = improves ms e"
    unfolding an using a1' a2' by blast
  have a3: "\<forall>e<length ms. (LastPth, e) \<in> set (saves (train_age ms))"
    unfolding an by (rule a3')
  have a4: "\<forall>k. 0 < k \<and> k \<le> length ms \<longrightarrow> disk (train_age (take k ms)) LastPth = Some (k - 1)"
  proof (intro allI impI)
    fix k assume k: "0 < k \<and> k \<le> length ms"
    then have ne: "take k ms \<noteq> []" and len: "length (take k ms) = k" by auto
    from age_loop_saves [OF bz, where ms = "take k ms"] ne
    have "disk (train_age (take k ms)) LastPth = Some (length (take k ms) - 1)"
      unfolding train_age_def by blast
    then show "disk (train_age (take k ms)) LastPth = Some (k - 1)"
      unfolding len .
  qed
  have t5: "take 5 folds = folds" using assms by simp
  have f0: "saves (fresh_run :: (nat \<times> nat) run_state) = []"
    unfolding fresh_run_def by simp
  from fold_run_saves [of folds fresh_run] obtain new
    where new: "saves (train_5fold folds) = saves (fresh_run :: (nat \<times> nat) run_state) @ new"
    and b1': "\<forall>f e. (BestPth, (f, e)) \<in> set new \<longrightarrow> f < length folds \<and> improves (folds ! f) e"
    and b2': "\<forall>f<length folds. \<forall>e. improves (folds ! f) e \<longrightarrow> (BestPth, (f, e)) \<in> set new"
    and b3': "\<forall>f<length folds. \<forall>e<length (folds ! f). (LastPth, (f, e)) \<in> set new"
    unfolding train_5fold_def t5 by blast
  have bn: "saves (train_5fold folds) = new"
    unfolding new f0 by simp
  have b1: "\<forall>f e. ((BestPth, (f, e)) \<in> set (saves (train_5fold folds)))
         = (f < 5 \<and> improves (folds ! f) e)"
    unfolding bn using b1' b2' unfolding assms by blast
  have b2: "\<forall>f<5. \<forall>e<length (folds ! f). (LastPth, (f, e)) \<in> set (saves (train_5fold folds))"
    unfolding bn using b3' unfolding assms .
  have b3: "\<forall>f<5. \<forall>k. 0 < k \<and> k \<le> length (folds ! f) \<longrightarrow>
         disk (fold_loop 0 (take f folds @ [take k (folds ! f)]) fresh_run) LastPth = Some (f, k - 1)"
  proof (intro allI impI)
    fix f k assume f: "f < 5" and k: "0 < k \<and> k \<le> length (folds ! f)"
    from f have "f < length folds" unfolding assms .
    then show "disk (fold_loop 0 (take f folds @ [take k (folds ! f)]) fresh_run) LastPth
        = Some (f, k - 1)"
      using k by (intro fold_run_last) simp_all
  qed
  have b4: "folds ! 4 \<noteq> [] \<longrightarrow>
         disk (train_5fold folds) LastPth = Some (4, length (folds ! 4) - 1)"
  proof
    assume ne: "folds ! 4 \<noteq> []"
    have run: "train_5fold folds = fold_loop 0 (take 4 folds @ [take (length (folds ! 4)) (folds ! 4)]) fresh_run"
      unfolding train_5fold_def five_folds_split [OF assms] by simp
    have "4 < length folds" unfolding assms by simp
    moreover have "0 < length (folds ! 4)" using ne by simp
    ultimately show "disk (train_5fold folds) LastPth = Some (4, length (folds ! 4) - 1)"
      unfolding run by (intro fold_run_last) simp_all
  qed
  show ?thesis
    using a1 a3 a4 b1 b2 b3 b4 by - (intro conjI; assumption)
qed

text \<open>
  Claim C4 as stated has \<^verbatim>\<open>best.pth\<close> written only on an F1 strictly greater than
  every F1 observed before in the run of a training script. In a run of
  \<^verbatim>\<open>train_5fold.py\<close> with one epoch per fold, fold 0 saves \<^verbatim>\<open>best.pth\<close> on an F1 of
  9/10 and fold 1 overwrites it on the lower F1 of 1/5; folds 2 and 3 overwrite it on an
  equal F1.
\<close>

theorem later_fold_overwrites_best_pth_on_lower_f1:
  "disk (fold_loop 0 (take 1
      [[\<lparr>val_f1 = 9 / 10, val_loss = 1, val_acc = 1 / 2\<rparr>],
       [\<lparr>val_f1 = 1 / 5, val_loss = 2, val_acc = 1 / 4\<rparr>],
       [\<lparr>val_f1 = 1 / 5, val_loss = 2, val_acc = 1 / 4\<rparr>],
       [\<lparr>val_f1 = 1 / 5, val_loss = 2, val_acc = 1 / 4\<rparr>],
       [\<lparr>val_f1 = 3 / 10, val_loss = 2, val_acc = 1 / 4\<rparr>]]) fresh_run) BestPth = Some (0, 0)
   \<and> disk (fold_loop 0 (take 2
      [[\<lparr>val_f1 = 9 / 10, val_loss = 1, val_acc = 1 / 2\<rparr>],
       [\<lparr>val_f1 = 1 / 5, val_loss = 2, val_acc = 1 / 4\<rparr>],
       [\<lparr>val_f1 = 1 / 5, val_loss = 2, val_acc = 1 / 4\<rparr>],
       [\<lparr>val_f1 = 1 / 5, val_loss = 2, val_acc = 1 / 4\<rparr>],
       [\<lparr>val_f1 = 3 / 10, val_loss = 2, val_acc = 1 / 4\<rparr>]]) fresh_run) BestPth = Some (1, 0)
   \<and> map snd (filter (\<lambda>s. fst s = BestPth) (saves (train_5fold
      [[\<lparr>val_f1 = 9 / 10, val_loss = 1, val_acc = 1 / 2\<rparr>],
       [\<lparr>val_f1 = 1 / 5, val_loss = 2, val_acc = 1 / 4\<rparr>],
       [\<lparr>val_f1 = 1 / 5, val_loss = 2, val_acc = 1 / 4\<rparr>],
       [\<lparr>val_f1 = 1 / 5, val_loss = 2, val_acc = 1 / 4\<rparr>],
       [\<lparr>val_f1 = 3 / 10, val_loss = 2, val_acc = 1 / 4\<rparr>]])))
      = [(0, 0), (1, 0), (2, 0), (3, 0), (4, 0)]
   \<and> disk (train_5fold
      [[\<lparr>val_f1 = 9 / 10, val_loss = 1, val_acc = 1 / 2\<rparr>],
       [\<lparr>val_f1 = 1 / 5, val_loss = 2, val_acc = 1 / 4\<rparr>],
       [\<lparr>val_f1 = 1 / 5, val_loss = 2, val_acc = 1 / 4\<rparr>],
       [\<lparr>val_f1 = 1 / 5, val_loss = 2, val_acc = 1 / 4\<rparr>],
       [\<lparr>val_f1 = 3 / 10, val_loss = 2, val_acc = 1 / 4\<rparr>]]) BestPth = Some (4, 0)"
  unfolding train_5fold_def
  by (simp add: fold_epoch_end_def checkpoint_def torch_save_def update_trackers_def
      init_trackers_def fresh_run_def)


theorem checkpoint_discipline_witness:
  "length
      [[\<lparr>val_f1 = 9 / 10, val_loss = 1, val_acc = 1 / 2\<rparr>],
       [\<lparr>val_f1 = 1 / 5, val_loss = 2, val_acc = 1 / 4\<rparr>,
        \<lparr>val_f1 = 1 / 10, val_loss = 2, val_acc = 1 / 4\<rparr>],
       [\<lparr>val_f1 = 1 / 5, val_loss = 2, val_acc = 1 / 4\<rparr>],
       [\<lparr>val_f1 = 1 / 5, val_loss = 2, val_acc = 1 / 4\<rparr>],
       [\<lparr>val_f1 = 3 / 10, val_loss = 2, val_acc = 1 / 4\<rparr>,
        \<lparr>val_f1 = 2 / 5, val_loss = 2, val_acc = 1 / 4\<rparr>]] = 5
   \<and> (BestPth, 1) \<notin> set (saves (train_age
       [\<lparr>val_f1 = 1 / 2, val_loss = 1, val_acc = 0\<rparr>,
        \<lparr>val_f1 = 1 / 2, val_loss = 1, val_acc = 0\<rparr>,
        \<lparr>val_f1 = 7 / 10, val_loss = 1, val_acc = 0\<rparr>]))
   \<and> (BestPth, 2) \<in> set (saves (train_age
       [\<lparr>val_f1 = 1 / 2, val_loss = 1, val_acc = 0\<rparr>,
        \<lparr>val_f1 = 1 / 2, val_loss = 1, val_acc = 0\<rparr>,
        \<lparr>val_f1 = 7 / 10, val_loss = 1, val_acc = 0\<rparr>]))
   \<and> disk (train_age
       [\<lparr>val_f1 = 1 / 2, val_loss = 1, val_acc = 0\<rparr>,
        \<lparr>val_f1 = 1 / 2, val_loss = 1, val_acc = 0\<rparr>,
        \<lparr>val_f1 = 7 / 10, val_loss = 1, val_acc = 0\<rparr>]) LastPth = Some 2
   \<and> (BestPth, (1, 0)) \<in> set (saves (train_5fold
      [[\<lparr>val_f1 = 9 / 10, val_loss = 1, val_acc = 1 / 2\<rparr>],
       [\<lparr>val_f1 = 1 / 5, val_loss = 2, val_acc = 1 / 4\<rparr>,
        \<lparr>val_f1 = 1 / 10, val_loss = 2, val_acc = 1 / 4\<rparr>],
       [\<lparr>val_f1 = 1 / 5, val_loss = 2, val_acc = 1 / 4\<rparr>],
       [\<lparr>val_f1 = 1 / 5, val_loss = 2, val_acc = 1 / 4\<rparr>],
       [\<lparr>val_f1 = 3 / 10, val_loss = 2, val_acc = 1 / 4\<rparr>,
        \<lparr>val_f1 = 2 / 5, val_loss = 2, val_acc = 1 / 4\<rparr>]]))
   \<and> (BestPth, (1, 1)) \<notin> set (saves (train_5fold
      [[\<lparr>val_f1 = 9 / 10, val_loss = 1, val_acc = 1 / 2\<rparr>],
       [\<lparr>val_f1 = 1 / 5, val_loss = 2, val_acc = 1 / 4\<rparr>,
        \<lparr>val_f1 = 1 / 10, val_loss = 2, val_acc = 1 / 4\<rparr>],
       [\<lparr>val_f1 = 1 / 5, val_loss = 2, val_acc = 1 / 4\<rparr>],
       [\<lparr>val_f1 = 1 / 5, val_loss = 2, val_acc = 1 / 4\<rparr>],
       [\<lparr>val_f1 = 3 / 10, val_loss = 2, val_acc = 1 / 4\<rparr>,
        \<lparr>val_f1 = 2 / 5, val_loss = 2, val_acc = 1 / 4\<rparr>]]))
   \<and> disk (train_5fold
      [[\<lparr>val_f1 = 9 / 10, val_loss = 1, val_acc = 1 / 2\<rparr>],
       [\<lparr>val_f1 = 1 / 5, val_loss = 2, val_acc = 1 / 4\<rparr>,
        \<lparr>val_f1 = 1 / 10, val_loss = 2, val_acc = 1 / 4\<rparr>],
       [\<lparr>val_f1 = 1 / 5, val_loss = 2, val_acc = 1 / 4\<rparr>],
       [\<lparr>val_f1 = 1 / 5, val_loss = 2, val_acc = 1 / 4\<rparr>],
       [\<lparr>val_f1 = 3 / 10, val_loss = 2, val_acc = 1 / 4\<rparr>,
        \<lparr>val_f1 = 2 / 5, val_loss = 2, val_acc = 1 / 4\<rparr>]]) LastPth = Some (4, 1)"
proof -
  let ?ms = "[\<lparr>val_f1 = 1 / 2, val_loss = 1, val_acc = 0\<rparr>,
        \<lparr>val_f1 = 1 / 2, val_loss = 1, val_acc = 0\<rparr>,
        \<lparr>val_f1 = 7 / 10, val_loss = 1, val_acc = 0\<rparr>]"
  let ?f1 = "[\<lparr>val_f1 = 1 / 5, val_loss = 2, val_acc = 1 / 4\<rparr>,
        \<lparr>val_f1 = 1 / 10, val_loss = 2, val_acc = 1 / 4\<rparr>]"
  let ?f4 = "[\<lparr>val_f1 = 3 / 10, val_loss = 2, val_acc = 1 / 4\<rparr>,
        \<lparr>val_f1 = 2 / 5, val_loss = 2, val_acc = 1 / 4\<rparr>]"
  let ?F = "[[\<lparr>val_f1 = 9 / 10, val_loss = 1, val_acc = 1 / 2\<rparr>],
       ?f1,
       [\<lparr>val_f1 = 1 / 5, val_loss = 2, val_acc = 1 / 4\<rparr>],
       [\<lparr>val_f1 = 1 / 5, val_loss = 2, val_acc = 1 / 4\<rparr>],
       ?f4]"
  have len: "length ?F = 5" by simp
  note d = checkpoint_discipline [OF len, where ms = ?ms]
  note age_best = d [THEN conjunct1, rule_format]
  note age_last = d [THEN conjunct2, THEN conjunct2, THEN conjunct1, rule_format, of 3]
  note fold_best = d [THEN conjunct2, THEN conjunct2, THEN conjunct2, THEN conjunct1, rule_format]
  note fold_last = d [THEN conjunct2, THEN conjunct2, THEN conjunct2, THEN conjunct2,
      THEN conjunct2, THEN conjunct2, rule_format]
  have l1: "?F ! 1 = ?f1" and l4: "?F ! 4 = ?f4" by simp_all
  have i1: "\<not> improves ?ms 1"
    unfolding improves_def by simp
  have i2: "improves ?ms 2"
    unfolding improves_def by (simp add: numeral_2_eq_2 All_less_Suc)
  have j0: "improves ?f1 0"
    unfolding improves_def by simp
  have j1: "\<not> improves ?f1 1"
    unfolding improves_def by simp
  have n1: "(BestPth, 1) \<notin> set (saves (train_age ?ms))"
    unfolding age_best using i1 .
  have y2: "(BestPth, 2) \<in> set (saves (train_age ?ms))"
    unfolding age_best using i2 .
  have "0 < (3::nat) \<and> 3 \<le> length ?ms" by simp
  from age_last [OF this] have l: "disk (train_age ?ms) LastPth = Some 2"
    by simp
  have y10: "(BestPth, (1, 0)) \<in> set (saves (train_5fold ?F))"
    unfolding fold_best l1 using j0 by simp
  have n11: "(BestPth, (1, 1)) \<notin> set (saves (train_5fold ?F))"
    unfolding fold_best l1 using j1 by simp
  have "?F ! 4 \<noteq> []" unfolding l4 by simp
  from fold_last [OF this] have fl: "disk (train_5fold ?F) LastPth = Some (4, 1)"
    unfolding l4 by simp
  from len n1 y2 l y10 n11 fl show ?thesis by (intro conjI)
qed

end
